theory Spec2Isabelle
  imports Complex_Main
begin

section \<open>Tensors\<close>

text \<open>
  A dense tensor is its shape and its contents, read by a multi-index (one index per
  dimension, outermost first).  Only the entries whose index lies inside the shape
  belong to the tensor.  The source computes in 32-bit floating point; the model
  computes in the real numbers.  Input images and windows hold real (finite) numbers.
  A computed entry is a \<open>real option\<close>: \<open>None\<close> stands for a value that is not a finite
  number (\<open>inf\<close>, \<open>-inf\<close> or \<open>nan\<close>), which the source produces when it divides by zero or
  takes the logarithm of a number that is not positive.
\<close>

record 'a tensor =
  shape :: "nat list"
  elem :: "nat list \<Rightarrow> 'a"

type_synonym fl = "real option"

definition ndim :: "'a tensor \<Rightarrow> nat" where
  "ndim t = length (shape t)"

definition numel :: "'a tensor \<Rightarrow> nat" where
  "numel t = prod_list (shape t)"

text \<open>All multi-indices of a shape, in row-major order.\<close>

fun indices :: "nat list \<Rightarrow> nat list list" where
  "indices [] = [[]]"
| "indices (n # ns) = concat (map (\<lambda>i. map ((#) i) (indices ns)) [0..<n])"

definition entries :: "'a tensor \<Rightarrow> 'a list" where
  "entries t = map (elem t) (indices (shape t))"

subsection \<open>Arithmetic on computed values\<close>

definition fadd :: "fl \<Rightarrow> fl \<Rightarrow> fl" where
  "fadd a b = (case a of None \<Rightarrow> None | Some x \<Rightarrow> (case b of None \<Rightarrow> None | Some y \<Rightarrow> Some (x + y)))"

definition fsub :: "fl \<Rightarrow> fl \<Rightarrow> fl" where
  "fsub a b = (case a of None \<Rightarrow> None | Some x \<Rightarrow> (case b of None \<Rightarrow> None | Some y \<Rightarrow> Some (x - y)))"

definition fmul :: "fl \<Rightarrow> fl \<Rightarrow> fl" where
  "fmul a b = (case a of None \<Rightarrow> None | Some x \<Rightarrow> (case b of None \<Rightarrow> None | Some y \<Rightarrow> Some (x * y)))"

text \<open>Division by zero gives \<open>inf\<close>, \<open>-inf\<close> or \<open>nan\<close>: not a finite number.\<close>

definition fdiv :: "fl \<Rightarrow> fl \<Rightarrow> fl" where
  "fdiv a b = (case a of None \<Rightarrow> None | Some x \<Rightarrow>
                (case b of None \<Rightarrow> None | Some y \<Rightarrow> if y = 0 then None else Some (x / y)))"

text \<open>\<open>torch.log\<close> gives \<open>-inf\<close> at zero and \<open>nan\<close> below it.\<close>

definition flog :: "fl \<Rightarrow> fl" where
  "flog a = (case a of None \<Rightarrow> None | Some x \<Rightarrow> if 0 < x then Some (ln x) else None)"

text \<open>\<open>torch.sqrt\<close> gives \<open>nan\<close> below zero.\<close>

definition fsqrt :: "fl \<Rightarrow> fl" where
  "fsqrt a = (case a of None \<Rightarrow> None | Some x \<Rightarrow> if 0 \<le> x then Some (sqrt x) else None)"

text \<open>The sum of \<open>f 0, ..., f (n - 1)\<close>.\<close>

definition fsum :: "nat \<Rightarrow> (nat \<Rightarrow> fl) \<Rightarrow> fl" where
  "fsum n f = foldr (\<lambda>i acc. fadd (f i) acc) [0..<n] (Some 0)"

subsection \<open>Tensor operations of the library\<close>

text \<open>
  Broadcasting of two shapes of the same rank: a dimension of size 1 is stretched to the
  size of the other tensor, and its index is read as 0.
\<close>

definition bshape :: "nat list \<Rightarrow> nat list \<Rightarrow> nat list" where
  "bshape s1 s2 = map2 (\<lambda>a b. if a = 1 then b else a) s1 s2"

definition bindex :: "nat list \<Rightarrow> nat list \<Rightarrow> nat list" where
  "bindex s ix = map2 (\<lambda>d i. if d = 1 then 0 else i) s ix"

definition bcast_ok :: "nat list \<Rightarrow> nat list \<Rightarrow> bool" where
  "bcast_ok s1 s2 \<longleftrightarrow> length s1 = length s2 \<and> list_all2 (\<lambda>a b. a = b \<or> a = 1 \<or> b = 1) s1 s2"

text \<open>An elementwise binary operation, with broadcasting.\<close>

definition tbin :: "('a \<Rightarrow> 'b \<Rightarrow> 'c) \<Rightarrow> 'a tensor \<Rightarrow> 'b tensor \<Rightarrow> 'c tensor" where
  "tbin f a b =
     \<lparr>shape = bshape (shape a) (shape b),
      elem = \<lambda>ix. f (elem a (bindex (shape a) ix)) (elem b (bindex (shape b) ix))\<rparr>"

definition tmap :: "('a \<Rightarrow> 'b) \<Rightarrow> 'a tensor \<Rightarrow> 'b tensor" where
  "tmap f a = \<lparr>shape = shape a, elem = \<lambda>ix. f (elem a ix)\<rparr>"

text \<open>\<open>t.unsqueeze(d)\<close>: a new dimension of size 1 at position \<open>d\<close>.\<close>

definition unsqueeze :: "nat \<Rightarrow> 'a tensor \<Rightarrow> 'a tensor" where
  "unsqueeze d t =
     \<lparr>shape = take d (shape t) @ [1] @ drop d (shape t),
      elem = \<lambda>ix. elem t (take d ix @ drop (Suc d) ix)\<rparr>"

text \<open>\<open>t.t()\<close>: the transpose of a matrix.\<close>

definition transpose_t :: "'a tensor \<Rightarrow> 'a tensor" where
  "transpose_t t = \<lparr>shape = rev (shape t), elem = \<lambda>ix. elem t (rev ix)\<rparr>"

text \<open>\<open>a.mm(b)\<close>: the product of an \<open>n \<times> k\<close> and a \<open>k \<times> m\<close> matrix of real numbers.\<close>

definition mm :: "real tensor \<Rightarrow> real tensor \<Rightarrow> real tensor" where
  "mm a b =
     \<lparr>shape = [shape a ! 0, shape b ! 1],
      elem = \<lambda>ix. (\<Sum>l<shape a ! 1. elem a [ix ! 0, l] * elem b [l, ix ! 1])\<rparr>"

text \<open>\<open>t.expand(s)\<close>: the dimensions of size 1 are stretched to those of \<open>s\<close>.\<close>

definition expand :: "nat list \<Rightarrow> 'a tensor \<Rightarrow> 'a tensor" where
  "expand s t = \<lparr>shape = s, elem = \<lambda>ix. elem t (bindex (shape t) ix)\<rparr>"

text \<open>
  \<open>t.sum((-1, -2), keepdim=True)\<close> on real numbers: the sum over the last two
  dimensions, which stay in the shape with size 1.
\<close>

definition sum_last2_keepdim :: "real tensor \<Rightarrow> real tensor" where
  "sum_last2_keepdim t =
     (let r = ndim t - 2; h = shape t ! r; w = shape t ! Suc r
      in \<lparr>shape = take r (shape t) @ [1, 1],
          elem = \<lambda>ix. (\<Sum>i<h. \<Sum>j<w. elem t (take r ix @ [i, j]))\<rparr>)"

text \<open>\<open>t.sum((-1, -2))\<close> on real numbers: the same sums, the two dimensions dropped.\<close>

definition sum_last2 :: "real tensor \<Rightarrow> real tensor" where
  "sum_last2 t =
     (let r = ndim t - 2; h = shape t ! r; w = shape t ! Suc r
      in \<lparr>shape = take r (shape t),
          elem = \<lambda>ix. (\<Sum>i<h. \<Sum>j<w. elem t (take r ix @ [i, j]))\<rparr>)"

section \<open>The Gaussian window of SSIM\<close>

text \<open>
  \<open>_gaussian(window_size, sigma)\<close>: \<open>x = arange(window_size)\<close>, \<open>mu = window_size // 2\<close>,
  \<open>exp(-(x - mu)**2 / (2 * sigma**2))\<close>.
\<close>

definition gaussian :: "nat \<Rightarrow> real \<Rightarrow> real tensor" where
  "gaussian window_size sigma =
     (let mu = window_size div 2
      in \<lparr>shape = [window_size],
          elem = \<lambda>ix. exp (- ((real (ix ! 0) - real mu) ^ 2) / (2 * sigma ^ 2))\<rparr>)"

text \<open>
  \<open>create_window(window_size, n_channels)\<close>.  The last line divides every entry by the
  sum of its channel; that sum is positive whenever the window has an entry (lemma
  \<open>gauss_sum_pos\<close> below), so the division never has a zero divisor.
\<close>

definition create_window :: "nat \<Rightarrow> nat \<Rightarrow> real tensor" where
  "create_window window_size n_channels =
     (let w1D = unsqueeze 1 (gaussian window_size (3 / 2));
          w2D = unsqueeze 0 (unsqueeze 0 (mm w1D (transpose_t w1D)));
          window = expand [n_channels, 1, window_size, window_size] w2D
      in tbin (/) window (sum_last2_keepdim window))"

text \<open>\<open>real_size = min(11, height, width)\<close> in \<open>_ssim_parts\<close>.\<close>

definition real_size :: "nat \<Rightarrow> nat \<Rightarrow> nat" where
  "real_size height width = min 11 (min height width)"

section \<open>Outcomes: warnings and raised exceptions\<close>

text \<open>
  \<open>warnings.warn\<close> does not stop the computation: a call gives the list of the warnings
  it emitted, in order, together with either the exception it raised or its value.
\<close>

datatype warning =
    RangeWarning          \<comment> \<open>"dynamic_range is ... but image range falls outside ..."\<close>
  | MultiChannelWarning   \<comment> \<open>"SSIM was developed on grayscale images ..."\<close>
  | WindowSumWarning      \<comment> \<open>"window should have sum of 1! normalizing..."\<close>

datatype error =
    EmptyMinMax       \<comment> \<open>RuntimeError of \<open>min()\<close> or \<open>max()\<close> on a tensor with no element\<close>
  | UnpackShape       \<comment> \<open>ValueError of unpacking a shape that has not four entries\<close>
  | SpatialMismatch   \<comment> \<open>"img1 and img2 must have the same height and width!"\<close>
  | BatchMismatch     \<comment> \<open>"Either img1 and img2 should have the same ... batch dimension ..."\<close>
  | DimOutOfRange     \<comment> \<open>IndexError of \<open>sum((-1, -2))\<close> on a tensor with fewer than two dimensions\<close>
  | WindowDims        \<comment> \<open>"window must have 4 dimensions!"\<close>
  | ConvShape         \<comment> \<open>RuntimeError of \<open>conv2d\<close> on shapes that do not fit\<close>
  | MatmulShape       \<comment> \<open>RuntimeError of \<open>matmul\<close> on shapes that do not fit\<close>
  | CatShape          \<comment> \<open>RuntimeError of \<open>cat\<close> on shapes that do not fit\<close>
  | BroadcastShape    \<comment> \<open>RuntimeError of an elementwise operation on shapes that do not broadcast\<close>
  | IndexOutOfRange   \<comment> \<open>IndexError of reading a list or a tensor past its end\<close>
  | KeyError          \<comment> \<open>KeyError of reading a dictionary at a key it does not have\<close>
  | StackEmpty        \<comment> \<open>RuntimeError of \<open>torch.stack\<close> on an empty list\<close>

type_synonym 'a outcome = "warning list \<times> (error + 'a)"

section \<open>The checks on the window in \<open>_ssim_parts\<close>\<close>

text \<open>
  Lines 125 to 129 of \<open>perceptual_distance.py\<close>, as a function of the window they test:
  \<^verbatim>\<open>
    if (window.sum((-1, -2)) > 1).any():
        warnings.warn("window should have sum of 1! normalizing...")
        window = window / window.sum((-1, -2), keepdim=True)
    if window.ndim != 4:
        raise Exception("window must have 4 dimensions!")
  \<close>
  The sum over the last two dimensions raises on a tensor that has fewer than two.  The
  division can meet a channel whose sum is zero, so the window that leaves the checks
  holds computed values.
\<close>

definition check_window :: "real tensor \<Rightarrow> fl tensor outcome" where
  "check_window window =
     (if ndim window < 2 then ([], Inl DimOutOfRange)
      else
        let (ws, window1) =
              (if \<exists>v \<in> set (entries (sum_last2 window)). 1 < v
               then ([WindowSumWarning],
                     tbin (\<lambda>x y. fdiv (Some x) (Some y)) window (sum_last2_keepdim window))
               else ([], tmap Some window))
        in if ndim window1 \<noteq> 4 then (ws, Inl WindowDims) else (ws, Inr window1))"

section \<open>Windowed statistics and SSIM\<close>

text \<open>
  \<open>F.conv2d(input, weight, padding=p, groups=g)\<close> without bias and with stride 1, on a
  4d input \<open>(n, c_in, h, w)\<close> and a 4d weight \<open>(c_out, c_in / g, kh, kw)\<close>.  The library
  raises when the shapes do not fit.  Output channel \<open>o\<close> belongs to group
  \<open>o div (c_out div g)\<close> and reads the input channels of that group; the input is padded
  with zeros.
\<close>

definition padded :: "real tensor \<Rightarrow> nat \<Rightarrow> nat list \<Rightarrow> real" where
  "padded input p ix =
     (let h = shape input ! 2; w = shape input ! 3; r = ix ! 2; q = ix ! 3
      in if p \<le> r \<and> r < h + p \<and> p \<le> q \<and> q < w + p
         then elem input [ix ! 0, ix ! 1, r - p, q - p] else 0)"

definition conv2d :: "real tensor \<Rightarrow> fl tensor \<Rightarrow> nat \<Rightarrow> nat \<Rightarrow> error + fl tensor" where
  "conv2d input weight p groups =
     (case shape input of
        [n, cin, h, w] \<Rightarrow>
          (case shape weight of
             [cout, cpg, kh, kw] \<Rightarrow>
               if groups = 0 \<or> cin \<noteq> groups * cpg \<or> cout mod groups \<noteq> 0
                  \<or> h + 2 * p < kh \<or> w + 2 * p < kw
               then Inl ConvShape
               else Inr \<lparr>shape = [n, cout, h + 2 * p + 1 - kh, w + 2 * p + 1 - kw],
                         elem = \<lambda>ix. fsum cpg (\<lambda>ci. fsum kh (\<lambda>i. fsum kw (\<lambda>j.
                           fmul (Some (padded input p
                                   [ix ! 0, (ix ! 1 div (cout div groups)) * cpg + ci,
                                    ix ! 2 + i, ix ! 3 + j]))
                                (elem weight [ix ! 1, ci, i, j]))))\<rparr>
           | _ \<Rightarrow> Inl ConvShape)
      | _ \<Rightarrow> Inl ConvShape)"

text \<open>
  \<open>torch.matmul(a, b)\<close> on two 4d tensors: the matrix product over the last two
  dimensions, the first two broadcast.  It raises unless the width of \<open>a\<close> is the height
  of \<open>b\<close>.
\<close>

definition matmul :: "fl tensor \<Rightarrow> fl tensor \<Rightarrow> error + fl tensor" where
  "matmul a b =
     (case shape a of
        [n1, c1, h1, w1] \<Rightarrow>
          (case shape b of
             [n2, c2, h2, w2] \<Rightarrow>
               if w1 \<noteq> h2 \<or> \<not> bcast_ok [n1, c1] [n2, c2] then Inl MatmulShape
               else Inr \<lparr>shape = bshape [n1, c1] [n2, c2] @ [h1, w2],
                         elem = \<lambda>ix. fsum w1 (\<lambda>k.
                           fmul (elem a (bindex [n1, c1] (take 2 ix) @ [ix ! 2, k]))
                                (elem b (bindex [n2, c2] (take 2 ix) @ [k, ix ! 3])))\<rparr>
           | _ \<Rightarrow> Inl MatmulShape)
      | _ \<Rightarrow> Inl MatmulShape)"

text \<open>\<open>t.sum((-1, -2))\<close> and \<open>t.mean((-1, -2))\<close> on computed values.\<close>

definition fsum_last2 :: "fl tensor \<Rightarrow> fl tensor" where
  "fsum_last2 t =
     (let r = ndim t - 2; h = shape t ! r; w = shape t ! Suc r
      in \<lparr>shape = take r (shape t),
          elem = \<lambda>ix. fsum h (\<lambda>i. fsum w (\<lambda>j. elem t (take r ix @ [i, j])))\<rparr>)"

definition fmean_last2 :: "fl tensor \<Rightarrow> fl tensor" where
  "fmean_last2 t =
     (let r = ndim t - 2; h = shape t ! r; w = shape t ! Suc r
      in tmap (\<lambda>v. fdiv v (Some (real (h * w)))) (fsum_last2 t))"

text \<open>
  Lines 91 to 106 of \<open>_ssim_parts\<close>: the warning about the range of the images.
  \<open>img_ranges\<close> holds the minimum and the maximum of each image.
\<close>

definition range_warning :: "int \<Rightarrow> real tensor \<Rightarrow> real tensor \<Rightarrow> warning list" where
  "range_warning dynamic_range img1 img2 =
     (let img_ranges = [Min (set (entries img1)), Max (set (entries img1)),
                        Min (set (entries img2)), Max (set (entries img2))]
      in if dynamic_range = 1 then
           (if (\<exists>v \<in> set img_ranges. 1 < v) \<or> (\<exists>v \<in> set img_ranges. v < 0)
            then [RangeWarning] else [])
         else if dynamic_range = 2 then
           (if (\<exists>v \<in> set img_ranges. 1 < v) \<or> (\<exists>v \<in> set img_ranges. v < - 1)
            then [RangeWarning] else [])
         else if dynamic_range = 255 then
           (if (\<exists>v \<in> set img_ranges. 255 < v) \<or> (\<exists>v \<in> set img_ranges. v < 0)
            then [RangeWarning] else [])
         else [])"

text \<open>
  Lines 131 to 159 of \<open>_ssim_parts\<close>: the statistics and the three maps, from the two
  images, the window that passed the checks and the number of channels of \<open>img1\<close>.
  The elementwise operations broadcast; the checks before them leave only the batch
  dimension to differ.  Line 157 computes a value that line 158 replaces; it has no
  effect and is left out.
\<close>

definition ssim_maps ::
  "real tensor \<Rightarrow> real tensor \<Rightarrow> fl tensor \<Rightarrow> nat \<Rightarrow> int
     \<Rightarrow> error + (fl tensor \<times> fl tensor \<times> fl tensor)" where
  "ssim_maps img1 img2 window n_channels dynamic_range =
     (case conv2d img1 window 0 n_channels of Inl e \<Rightarrow> Inl e | Inr mu1 \<Rightarrow>
      case conv2d img2 window 0 n_channels of Inl e \<Rightarrow> Inl e | Inr mu2 \<Rightarrow>
      let mu1_sq = tmap (\<lambda>v. fmul v v) mu1;
          mu2_sq = tmap (\<lambda>v. fmul v v) mu2;
          mu1_mu2 = tbin fmul mu1 mu2
      in
      case conv2d (tbin (*) img1 img1) window 0 n_channels of Inl e \<Rightarrow> Inl e | Inr m11 \<Rightarrow>
      case conv2d (tbin (*) img2 img2) window 0 n_channels of Inl e \<Rightarrow> Inl e | Inr m22 \<Rightarrow>
      case conv2d (tbin (*) img1 img2) window 0 n_channels of Inl e \<Rightarrow> Inl e | Inr m12 \<Rightarrow>
      let sigma1_sq = tbin fsub m11 mu1_sq;
          sigma2_sq = tbin fsub m22 mu2_sq;
          sigma12 = tbin fsub m12 mu1_mu2;
          C1 = Some (((1 / 100) * real_of_int dynamic_range) ^ 2);
          C2 = Some (((3 / 100) * real_of_int dynamic_range) ^ 2);
          v1 = tmap (\<lambda>v. fadd (fmul (Some 2) v) C2) sigma12;
          v2 = tmap (\<lambda>v. fadd v C2) (tbin fadd sigma1_sq sigma2_sq);
          contrast_map = tbin fdiv v1 v2
      in
      case matmul (tmap (\<lambda>v. fadd (Some 1) (fdiv v C2)) sigma1_sq)
                  (tmap (\<lambda>v. fadd (Some 1) (fdiv v C2)) sigma2_sq) of
        Inl e \<Rightarrow> Inl e
      | Inr pr \<Rightarrow>
          let weight = tmap flog pr;
              ssim_map = tbin fmul
                (tbin fdiv (tmap (\<lambda>v. fadd (fmul (Some 2) v) C1) mu1_mu2)
                           (tmap (\<lambda>v. fadd v C1) (tbin fadd mu1_sq mu2_sq)))
                contrast_map
          in Inr (ssim_map, contrast_map, weight))"

text \<open>
  \<open>_ssim_parts(img1, img2, dynamic_range)\<close>.  \<open>min()\<close> and \<open>max()\<close> of line 91 raise on a
  tensor without elements; unpacking the shape of \<open>img1\<close> raises unless it has four
  dimensions; \<open>img2.shape[-2:]\<close> are the last two entries of its shape (fewer when it has
  fewer), \<open>img2.shape[0]\<close> its first.
\<close>

definition ssim_parts ::
  "real tensor \<Rightarrow> real tensor \<Rightarrow> int \<Rightarrow> (fl tensor \<times> fl tensor \<times> fl tensor) outcome" where
  "ssim_parts img1 img2 dynamic_range =
     (if numel img1 = 0 \<or> numel img2 = 0 then ([], Inl EmptyMinMax)
      else
        let ws1 = range_warning dynamic_range img1 img2
        in case shape img1 of
             [n_batches, n_channels, height, width] \<Rightarrow>
               let ws2 = ws1 @ (if 1 < n_channels then [MultiChannelWarning] else [])
               in if drop (length (shape img2) - 2) (shape img2) \<noteq> [height, width]
                  then (ws2, Inl SpatialMismatch)
                  else if n_batches \<noteq> hd (shape img2) \<and> n_batches \<noteq> 1 \<and> hd (shape img2) \<noteq> 1
                  then (ws2, Inl BatchMismatch)
                  else
                    (case check_window (create_window (real_size height width) n_channels) of
                       (ws3, Inl e) \<Rightarrow> (ws2 @ ws3, Inl e)
                     | (ws3, Inr window) \<Rightarrow>
                         (ws2 @ ws3, ssim_maps img1 img2 window n_channels dynamic_range))
           | _ \<Rightarrow> (ws1, Inl UnpackShape))"

text \<open>\<open>ssim(img1, img2, weighted, dynamic_range)\<close>.\<close>

definition ssim :: "real tensor \<Rightarrow> real tensor \<Rightarrow> bool \<Rightarrow> int \<Rightarrow> fl tensor outcome" where
  "ssim img1 img2 weighted dynamic_range =
     (case ssim_parts img1 img2 dynamic_range of
        (ws, Inl e) \<Rightarrow> (ws, Inl e)
      | (ws, Inr (map_ssim, contrast, weight)) \<Rightarrow>
          (ws, Inr (if \<not> weighted then fmean_last2 map_ssim
                    else tbin fdiv (fsum_last2 (tbin fmul map_ssim weight)) (fsum_last2 weight))))"

text \<open>\<open>ssim_map(img1, img2, dynamic_range)\<close>.\<close>

definition ssim_map :: "real tensor \<Rightarrow> real tensor \<Rightarrow> int \<Rightarrow> fl tensor outcome" where
  "ssim_map img1 img2 dynamic_range =
     (case ssim_parts img1 img2 dynamic_range of
        (ws, Inl e) \<Rightarrow> (ws, Inl e)
      | (ws, Inr (map_ssim, contrast, weight)) \<Rightarrow> (ws, Inr map_ssim))"

section \<open>Notions used to state and prove the properties\<close>

text \<open>
  The definitions of this section are not part of the program: they name example
  inputs, the values the program computes as real numbers, and what a tensor holds.
\<close>

text \<open>The 1D Gaussian profile read at position \<open>i\<close>.\<close>

definition gauss_at :: "nat \<Rightarrow> nat \<Rightarrow> real" where
  "gauss_at s i = elem (gaussian s (3 / 2)) [i]"

text \<open>Broadcast index of a batch dimension.\<close>

definition bi :: "nat \<Rightarrow> nat \<Rightarrow> nat" where
  "bi n b = (if n = 1 then 0 else b)"

definition has4 :: "'a tensor \<Rightarrow> nat \<Rightarrow> nat \<Rightarrow> nat \<Rightarrow> nat \<Rightarrow> (nat \<Rightarrow> nat \<Rightarrow> nat \<Rightarrow> nat \<Rightarrow> 'a) \<Rightarrow> bool" where
  "has4 T n c H W g \<longleftrightarrow>
     shape T = [n, c, H, W]
     \<and> (\<forall>b<n. \<forall>ch<c. \<forall>y<H. \<forall>x<W. elem T [b, ch, y, x] = g b ch y x)"

definition win :: "nat \<Rightarrow> nat \<Rightarrow> nat \<Rightarrow> real" where
  "win s i j = gauss_at s i * gauss_at s j / (\<Sum>i'<s. \<Sum>j'<s. gauss_at s i' * gauss_at s j')"

definition wavg :: "nat \<Rightarrow> (nat \<Rightarrow> nat \<Rightarrow> real) \<Rightarrow> nat \<Rightarrow> nat \<Rightarrow> real" where
  "wavg s f y x = (\<Sum>i<s. \<Sum>j<s. f (y + i) (x + j) * win s i j)"

definition mean_at :: "nat \<Rightarrow> real tensor \<Rightarrow> nat \<Rightarrow> nat \<Rightarrow> nat \<Rightarrow> nat \<Rightarrow> real" where
  "mean_at s img b ch y x = wavg s (\<lambda>r q. elem img [b, ch, r, q]) y x"

definition prod_at ::
  "nat \<Rightarrow> real tensor \<Rightarrow> real tensor \<Rightarrow> nat \<Rightarrow> nat \<Rightarrow> nat \<Rightarrow> nat \<Rightarrow> nat \<Rightarrow> real" where
  "prod_at s img1 img2 b1 b2 ch y x =
     wavg s (\<lambda>r q. elem img1 [b1, ch, r, q] * elem img2 [b2, ch, r, q]) y x"

definition var_at :: "nat \<Rightarrow> real tensor \<Rightarrow> nat \<Rightarrow> nat \<Rightarrow> nat \<Rightarrow> nat \<Rightarrow> real" where
  "var_at s img b ch y x = prod_at s img img b b ch y x - mean_at s img b ch y x * mean_at s img b ch y x"

definition cov_at ::
  "nat \<Rightarrow> real tensor \<Rightarrow> real tensor \<Rightarrow> nat \<Rightarrow> nat \<Rightarrow> nat \<Rightarrow> nat \<Rightarrow> nat \<Rightarrow> real" where
  "cov_at s img1 img2 b1 b2 ch y x =
     prod_at s img1 img2 b1 b2 ch y x - mean_at s img1 b1 ch y x * mean_at s img2 b2 ch y x"

definition const1 :: "int \<Rightarrow> real" where
  "const1 dr = ((1 / 100) * real_of_int dr) ^ 2"

definition const2 :: "int \<Rightarrow> real" where
  "const2 dr = ((3 / 100) * real_of_int dr) ^ 2"

definition contrast_entry :: "int \<Rightarrow> real \<Rightarrow> real \<Rightarrow> real \<Rightarrow> fl" where
  "contrast_entry dr v1 v2 cov =
     fdiv (Some (2 * cov + const2 dr)) (Some (v1 + v2 + const2 dr))"

definition ssim_entry :: "int \<Rightarrow> real \<Rightarrow> real \<Rightarrow> real \<Rightarrow> real \<Rightarrow> real \<Rightarrow> fl" where
  "ssim_entry dr m1 m2 v1 v2 cov =
     fmul (fdiv (Some (2 * (m1 * m2) + const1 dr)) (Some (m1 * m1 + m2 * m2 + const1 dr)))
          (contrast_entry dr v1 v2 cov)"

definition weight_factor :: "int \<Rightarrow> real \<Rightarrow> fl" where
  "weight_factor dr v = fadd (Some 1) (fdiv (Some v) (Some (const2 dr)))"

definition ssim_val :: "int \<Rightarrow> real \<Rightarrow> real \<Rightarrow> real \<Rightarrow> real \<Rightarrow> real \<Rightarrow> real" where
  "ssim_val dr m1 m2 v1 v2 cov =
     ((2 * (m1 * m2) + const1 dr) / (m1 * m1 + m2 * m2 + const1 dr))
     * ((2 * cov + const2 dr) / (v1 + v2 + const2 dr))"

text \<open>The value of a weight entry.\<close>

definition weight_val :: "int \<Rightarrow> nat \<Rightarrow> (nat \<Rightarrow> real) \<Rightarrow> (nat \<Rightarrow> real) \<Rightarrow> real" where
  "weight_val dr H a b = ln (\<Sum>k<H. (1 + a k / const2 dr) * (1 + b k / const2 dr))"

definition full :: "nat list \<Rightarrow> 'a \<Rightarrow> 'a tensor" where
  "full s v = \<lparr>shape = s, elem = \<lambda>ix. v\<rparr>"

text \<open>The SSIM value and the weight at one position of the maps, as real numbers.\<close>

definition ssim_at :: "int \<Rightarrow> real tensor \<Rightarrow> real tensor \<Rightarrow> nat \<Rightarrow> nat \<Rightarrow> nat \<Rightarrow> nat \<Rightarrow> real" where
  "ssim_at dr img1 img2 b ch y x =
     (let s = real_size (shape img1 ! 2) (shape img1 ! 3);
          b1 = bi (shape img1 ! 0) b; b2 = bi (shape img2 ! 0) b
      in ssim_val dr (mean_at s img1 b1 ch y x) (mean_at s img2 b2 ch y x)
           (var_at s img1 b1 ch y x) (var_at s img2 b2 ch y x)
           (cov_at s img1 img2 b1 b2 ch y x))"

definition weight_at :: "int \<Rightarrow> real tensor \<Rightarrow> real tensor \<Rightarrow> nat \<Rightarrow> nat \<Rightarrow> nat \<Rightarrow> nat \<Rightarrow> real" where
  "weight_at dr img1 img2 b ch y x =
     (let s = real_size (shape img1 ! 2) (shape img1 ! 3);
          H = shape img1 ! 2 + 1 - s;
          b1 = bi (shape img1 ! 0) b; b2 = bi (shape img2 ! 0) b
      in weight_val dr H (\<lambda>k. var_at s img1 b1 ch y k) (\<lambda>k. var_at s img2 b2 ch k x))"

definition value_of :: "'a tensor outcome \<Rightarrow> nat list \<Rightarrow> 'a option" where
  "value_of out ix = (case snd out of Inl e \<Rightarrow> None | Inr t \<Rightarrow> Some (elem t ix))"

text \<open>
  The stability weight as the specification and the docstring of \<open>ssim\<close> state it, at one
  position: the logarithm of the product \<open>(1 + var1/C2) (1 + var2/C2)\<close> of the two numbers
  found at that position.
\<close>

definition weight_spec :: "int \<Rightarrow> real \<Rightarrow> real \<Rightarrow> fl" where
  "weight_spec dr var1 var2 =
     (let C2 = Some (((3 / 100) * real_of_int dr) ^ 2)
      in flog (fmul (fadd (Some 1) (fdiv (Some var1) C2)) (fadd (Some 1) (fdiv (Some var2) C2))))"

section \<open>The normalized Laplacian pyramid distance\<close>

text \<open>
  \<open>torch.cat((a, b), 0)\<close>: the two tensors one after the other along the first
  dimension.  It raises unless the other dimensions agree.
\<close>

definition cat0 :: "'a tensor \<Rightarrow> 'a tensor \<Rightarrow> error + 'a tensor" where
  "cat0 a b =
     (if shape a = [] \<or> shape b = [] \<or> tl (shape a) \<noteq> tl (shape b) then Inl CatShape
      else Inr \<lparr>shape = (hd (shape a) + hd (shape b)) # tl (shape a),
                elem = \<lambda>ix. if hd ix < hd (shape a) then elem a ix
                           else elem b ((hd ix - hd (shape a)) # tl ix)\<rparr>)"

text \<open>\<open>t[k]\<close>: item \<open>k\<close> along the first dimension; it raises past the end.\<close>

definition select0 :: "'a tensor \<Rightarrow> nat \<Rightarrow> error + 'a tensor" where
  "select0 t k =
     (if shape t = [] \<or> hd (shape t) \<le> k then Inl IndexOutOfRange
      else Inr \<lparr>shape = tl (shape t), elem = \<lambda>ix. elem t (k # ix)\<rparr>)"

text \<open>\<open>torch.mean(t)\<close>: the mean of all entries; \<open>nan\<close> for a tensor without entries.\<close>

definition mean_all :: "fl tensor \<Rightarrow> fl" where
  "mean_all t =
     fdiv (foldr (\<lambda>ix acc. fadd (elem t ix) acc) (indices (shape t)) (Some 0))
          (Some (real (numel t)))"

text \<open>A loop that appends one result per index or key and stops at the first exception.\<close>

fun collect :: "('k \<Rightarrow> error + 'a) \<Rightarrow> 'k list \<Rightarrow> error + 'a list" where
  "collect f [] = Inr []"
| "collect f (i # is) =
     (case f i of
        Inl e \<Rightarrow> Inl e
      | Inr y \<Rightarrow> (case collect f is of Inl e \<Rightarrow> Inl e | Inr ys \<Rightarrow> Inr (y # ys)))"

text \<open>
  The body of the loop of \<open>normalized_laplacian_pyramid\<close>, for scale \<open>N_b\<close>.  The
  Laplacian pyramid (\<open>Laplacian_Pyramid.analysis\<close>) and the two bundled coefficient files
  (\<open>DN_filts.npy\<close>, \<open>DN_sigmas.npy\<close>) are not part of the sources: the subbands
  \<open>laplacian_activations\<close>, the filters and the sigmas are parameters.
\<close>

definition nlp_scale ::
  "real tensor list \<Rightarrow> real tensor list \<Rightarrow> real list \<Rightarrow> nat \<Rightarrow> nat \<Rightarrow> error + fl tensor" where
  "nlp_scale laplacian_activations spatialpooling_filters sigmas channel N_b =
     (if length spatialpooling_filters \<le> N_b then Inl IndexOutOfRange
      else if length laplacian_activations \<le> N_b then Inl IndexOutOfRange
      else
        let filt = unsqueeze 0 (unsqueeze 0 (spatialpooling_filters ! N_b));
            lap = laplacian_activations ! N_b
        in case conv2d (tmap abs lap) (tmap Some filt) 2 channel of
             Inl e \<Rightarrow> Inl e
           | Inr filtered_activations \<Rightarrow>
               if length sigmas \<le> N_b then Inl IndexOutOfRange
               else if \<not> bcast_ok (shape lap) (shape filtered_activations)
               then Inl BroadcastShape
               else Inr (tbin fdiv (tmap Some lap)
                           (tmap (\<lambda>v. fadd (Some (sigmas ! N_b)) v) filtered_activations)))"

text \<open>\<open>normalized_laplacian_pyramid(im)\<close>, with \<open>N_scales = 6\<close>.\<close>

definition normalized_laplacian_pyramid ::
  "(real tensor \<Rightarrow> real tensor list) \<Rightarrow> real tensor list \<Rightarrow> real list \<Rightarrow> real tensor
     \<Rightarrow> error + fl tensor list" where
  "normalized_laplacian_pyramid analysis spatialpooling_filters sigmas im =
     (case shape im of
        [n, channel, height, width] \<Rightarrow>
          collect (nlp_scale (analysis im) spatialpooling_filters sigmas channel) [0..<6]
      | _ \<Rightarrow> Inl UnpackShape)"

text \<open>
  The body of the loop of \<open>nlpd\<close>:
  \<open>torch.sqrt(torch.mean((y[i][0] - y[i][1]) ** 2) + epsilon)\<close>.
\<close>

definition epsilon :: real where
  "epsilon = 1 / 10 ^ 10"

definition nlpd_scale :: "fl tensor list \<Rightarrow> nat \<Rightarrow> error + fl" where
  "nlpd_scale y i =
     (if length y \<le> i then Inl IndexOutOfRange
      else case select0 (y ! i) 0 of Inl e \<Rightarrow> Inl e | Inr y0 \<Rightarrow>
           case select0 (y ! i) 1 of Inl e \<Rightarrow> Inl e | Inr y1 \<Rightarrow>
             Inr (fsqrt (fadd (mean_all (tmap (\<lambda>v. fmul v v) (tbin fsub y0 y1))) (Some epsilon))))"

text \<open>\<open>nlpd(IM_1, IM_2)\<close>; \<open>torch.stack(dist).mean()\<close> is the mean of the six distances.\<close>

definition nlpd ::
  "(real tensor \<Rightarrow> real tensor list) \<Rightarrow> real tensor list \<Rightarrow> real list
     \<Rightarrow> real tensor \<Rightarrow> real tensor \<Rightarrow> error + fl" where
  "nlpd analysis spatialpooling_filters sigmas IM_1 IM_2 =
     (case cat0 IM_1 IM_2 of Inl e \<Rightarrow> Inl e | Inr im \<Rightarrow>
      case normalized_laplacian_pyramid analysis spatialpooling_filters sigmas im of
        Inl e \<Rightarrow> Inl e
      | Inr y \<Rightarrow>
          (case collect (nlpd_scale y) [0..<6] of
             Inl e \<Rightarrow> Inl e
           | Inr ds \<Rightarrow> Inr (fdiv (foldr fadd ds (Some 0)) (Some (real (length ds))))))"

text \<open>The local energy that the pooling filter gives at one position of a subband.\<close>

definition pooled :: "real tensor \<Rightarrow> real tensor \<Rightarrow> nat \<Rightarrow> nat \<Rightarrow> nat \<Rightarrow> real" where
  "pooled filt lap b y x =
     (\<Sum>i<5. \<Sum>j<5. padded (tmap abs lap) 2 [b, 0, y + i, x + j] * elem filt [i, j])"

text \<open>
  The distance as the specification words it.  \<open>narrow0 t start len\<close> is the part of \<open>t\<close>
  made of \<open>len\<close> items along the first dimension, from item \<open>start\<close> on.  At every scale the
  normalized subband is split along the batch axis into the half of the first batch (its
  first \<open>n1\<close> items) and the half of the second batch (the other items); the distance of the
  scale is the square root of the mean squared difference of the two halves plus epsilon,
  and the result is the mean of the six distances.
\<close>

definition narrow0 :: "'a tensor \<Rightarrow> nat \<Rightarrow> nat \<Rightarrow> 'a tensor" where
  "narrow0 t start len =
     \<lparr>shape = len # tl (shape t), elem = \<lambda>ix. elem t ((hd ix + start) # tl ix)\<rparr>"

definition spec_scale :: "nat \<Rightarrow> fl tensor list \<Rightarrow> nat \<Rightarrow> error + fl" where
  "spec_scale n1 y i =
     (if length y \<le> i then Inl IndexOutOfRange
      else if shape (y ! i) = [] \<or> hd (shape (y ! i)) < n1 then Inl IndexOutOfRange
      else
        let half1 = narrow0 (y ! i) 0 n1;
            half2 = narrow0 (y ! i) n1 (hd (shape (y ! i)) - n1)
        in if \<not> bcast_ok (shape half1) (shape half2) then Inl BroadcastShape
           else Inr (fsqrt (fadd (mean_all (tmap (\<lambda>v. fmul v v) (tbin fsub half1 half2)))
                                 (Some epsilon))))"

definition nlpd_spec ::
  "(real tensor \<Rightarrow> real tensor list) \<Rightarrow> real tensor list \<Rightarrow> real list
     \<Rightarrow> real tensor \<Rightarrow> real tensor \<Rightarrow> error + fl" where
  "nlpd_spec analysis spatialpooling_filters sigmas IM_1 IM_2 =
     (case cat0 IM_1 IM_2 of Inl e \<Rightarrow> Inl e | Inr im \<Rightarrow>
      case normalized_laplacian_pyramid analysis spatialpooling_filters sigmas im of
        Inl e \<Rightarrow> Inl e
      | Inr y \<Rightarrow>
          (case collect (spec_scale (hd (shape IM_1)) y) [0..<6] of
             Inl e \<Rightarrow> Inl e
           | Inr ds \<Rightarrow> Inr (fdiv (foldr fadd ds (Some 0)) (Some 6))))"

subsection \<open>The normalized steerable pyramid distance\<close>

text \<open>
  One term of \<open>nspd\<close>, for the tensor \<open>t\<close> that a dictionary holds at a key:
  \<open>torch.sqrt(torch.mean((t[0] - t[1]) ** 2) + epsilon)\<close>.
\<close>

definition nspd_term :: "fl tensor \<Rightarrow> error + fl" where
  "nspd_term t =
     (case select0 t 0 of Inl e \<Rightarrow> Inl e | Inr t0 \<Rightarrow>
      case select0 t 1 of Inl e \<Rightarrow> Inl e | Inr t1 \<Rightarrow>
        Inr (fsqrt (fadd (mean_all (tmap (\<lambda>v. fmul v v) (tbin fsub t0 t1))) (Some epsilon))))"

text \<open>The body of the loop of \<open>nspd\<close>: the term of \<open>norm[key]\<close>, then that of \<open>state[key]\<close>.\<close>

definition nspd_key ::
  "('k \<times> fl tensor) list \<Rightarrow> ('k \<times> fl tensor) list \<Rightarrow> 'k \<Rightarrow> error + fl list" where
  "nspd_key norm_dict state_dict key =
     (case map_of norm_dict key of None \<Rightarrow> Inl KeyError | Some n \<Rightarrow>
      case nspd_term n of Inl e \<Rightarrow> Inl e | Inr d1 \<Rightarrow>
      case map_of state_dict key of None \<Rightarrow> Inl KeyError | Some st \<Rightarrow>
      case nspd_term st of Inl e \<Rightarrow> Inl e | Inr d2 \<Rightarrow> Inr [d1, d2])"

text \<open>
  \<open>nspd(IM_1, IM_2, O, S, complex)\<close>.  The steerable pyramid and the two transforms are not
  part of the sources; they are parameters.  \<open>Steerable_Pyramid_Freq size order height
  complex\<close> is the constructor, called on \<open>IM_1.shape[-2:]\<close>: it raises or gives the
  decomposition (\<open>linear\<close> in the source, \<open>decompose\<close> here), which raises or gives the
  pyramid of a batch.  \<open>non_linear complex\<close> is
  \<open>rectangular_to_polar_dict\<close> or \<open>local_gain_control\<close>: it raises or gives the two
  dictionaries \<open>norm\<close> and \<open>state\<close>, as the lists of their items (\<open>norm_dict\<close> and
  \<open>state_dict\<close> here, \<open>norm\<close> being the name of a constant of the logic).  The constructor runs
  before the two batches are concatenated.
\<close>

definition nspd ::
  "(nat list \<Rightarrow> nat \<Rightarrow> nat \<Rightarrow> bool \<Rightarrow> error + (real tensor \<Rightarrow> error + 'p))
     \<Rightarrow> (bool \<Rightarrow> 'p \<Rightarrow> error + (('k \<times> fl tensor) list \<times> ('k \<times> fl tensor) list))
     \<Rightarrow> real tensor \<Rightarrow> real tensor \<Rightarrow> nat \<Rightarrow> nat \<Rightarrow> bool \<Rightarrow> error + fl" where
  "nspd Steerable_Pyramid_Freq non_linear IM_1 IM_2 order height complex =
     (case Steerable_Pyramid_Freq (drop (length (shape IM_1) - 2) (shape IM_1)) order height
             complex of
        Inl e \<Rightarrow> Inl e
      | Inr decompose \<Rightarrow>
     (case cat0 IM_1 IM_2 of Inl e \<Rightarrow> Inl e | Inr im \<Rightarrow>
      case decompose im of Inl e \<Rightarrow> Inl e | Inr pyr \<Rightarrow>
      case non_linear complex pyr of Inl e \<Rightarrow> Inl e | Inr (norm_dict, state_dict) \<Rightarrow>
      case collect (nspd_key norm_dict state_dict) (map fst state_dict) of
        Inl e \<Rightarrow> Inl e
      | Inr dss \<Rightarrow>
          let dist = concat dss
          in if dist = [] then Inl StackEmpty
             else Inr (fdiv (foldr fadd dist (Some 0)) (Some (real (length dist))))))"

subsection \<open>Example inputs\<close>

text \<open>
  Concrete inputs.  \<open>copies\<close> stands in for the Laplacian pyramid: every one of its six
  subbands is the batch itself.  \<open>two_images\<close> is a batch of two single-channel images of
  one pixel, with values 0 and 1.
\<close>

definition copies :: "real tensor \<Rightarrow> real tensor list" where
  "copies im = replicate 6 im"

definition two_images :: "real tensor" where
  "two_images = \<lparr>shape = [2, 1, 1, 1], elem = \<lambda>ix. real (hd ix)\<rparr>"

text \<open>
  Stand-ins for the steerable pyramid and its transform: the pyramid of a batch is the
  batch itself, and both dictionaries hold it at the single key 0.
\<close>

definition identity_pyramid ::
  "nat list \<Rightarrow> nat \<Rightarrow> nat \<Rightarrow> bool \<Rightarrow> error + (real tensor \<Rightarrow> error + real tensor)" where
  "identity_pyramid spatial order height complex = Inr (\<lambda>im. Inr im)"

definition one_band ::
  "bool \<Rightarrow> real tensor \<Rightarrow> error + ((nat \<times> fl tensor) list \<times> (nat \<times> fl tensor) list)" where
  "one_band complex pyr = Inr ([(0, tmap Some pyr)], [(0, tmap Some pyr)])"

text \<open>One single-channel image of 2 by 2 pixels, with the values 0, 2, 1 and 3.\<close>

definition ramp_image :: "real tensor" where
  "ramp_image = \<lparr>shape = [1, 1, 2, 2], elem = \<lambda>ix. real (ix ! 2) + 2 * real (ix ! 3)\<rparr>"

section \<open>Loading a synthesis object\<close>

text \<open>
  \<open>Synthesis.load\<close> works on the attributes of the object and on the dictionary that
  \<open>torch.load\<close> returns.  An attribute value is a tensor on a device, a callable (a loss
  function, applied to two tensors), a shape (\<open>_signal_shape\<close>) or any other Python value.
  An exception is a value of \<open>load_error\<close>: \<open>Exception\<close> is the exception that \<open>load\<close>
  itself raises at a failed check, the others are raised by Python or by the library.
\<close>

datatype load_error =
  LoadError | AttributeError | KeyError | TypeError | RuntimeError | UnboundLocalError
  | Exception

type_synonym dtensor = "string \<times> real tensor"

datatype val =
  Tensor dtensor
  | Callable "dtensor \<Rightarrow> dtensor \<Rightarrow> load_error + dtensor"
  | Size "nat list"
  | Other string

text \<open>The object: its attributes by name (\<open>hasattr\<close>, \<open>getattr\<close>, \<open>setattr\<close>).\<close>

type_synonym obj = "string \<Rightarrow> val option"

text \<open>\<open>t.to(device)\<close>: the same contents on the device.\<close>

definition to :: "string \<Rightarrow> dtensor \<Rightarrow> dtensor" where
  "to device t = (device, snd t)"

text \<open>
  A \<open>for\<close> loop over a list whose body works on the object: it stops at the first
  exception, with the object as the body left it.
\<close>

fun for_each ::
  "('k \<Rightarrow> obj \<Rightarrow> (load_error + unit) \<times> obj) \<Rightarrow> 'k list \<Rightarrow> obj \<Rightarrow> (load_error + unit) \<times> obj"
  where
  "for_each body [] self = (Inr (), self)"
| "for_each body (k # ks) self =
     (case body k self of
        (Inl e, self') \<Rightarrow> (Inl e, self')
      | (Inr u, self') \<Rightarrow> for_each body ks self')"

text \<open>
  Lines 104 to 110: the device is \<open>map_location\<close> or that of the first tensor of the
  dictionary; with neither, the name \<open>device\<close> stays unbound.
\<close>

fun first_device :: "val list \<Rightarrow> string option" where
  "first_device [] = None"
| "first_device (Tensor t # vs) = Some (fst t)"
| "first_device (v # vs) = first_device vs"

text \<open>
  Lines 112 to 136, the body of the loop over \<open>check_attributes\<close>.  \<open>torch.allclose\<close>,
  with its relative tolerance as first argument, and Python's \<open>!=\<close> are parameters: they
  give a truth value or raise.  A \<open>RuntimeError\<close> of \<open>torch.allclose\<close> is caught and raised
  again as \<open>Exception\<close>; \<open>tmp_dict[k]\<close> raises \<open>KeyError\<close> for a missing key, and
  \<open>tmp_dict[k].device\<close> raises \<open>AttributeError\<close> on a value that is not a tensor.
\<close>

definition check_attribute ::
  "(real \<Rightarrow> dtensor \<Rightarrow> dtensor \<Rightarrow> load_error + bool) \<Rightarrow> (val \<Rightarrow> val \<Rightarrow> load_error + bool)
     \<Rightarrow> (string \<times> val) list \<Rightarrow> string \<Rightarrow> obj \<Rightarrow> (load_error + unit) \<times> obj" where
  "check_attribute allclose ne tmp_dict k self =
     (case self k of
        None \<Rightarrow> (Inl Exception, self)
      | Some (Tensor t) \<Rightarrow>
          (case map_of tmp_dict k of
             None \<Rightarrow> (Inl KeyError, self)
           | Some (Tensor u) \<Rightarrow>
               (case allclose (5 / 100) (to (fst u) t) u of
                  Inl e \<Rightarrow> (Inl (if e = RuntimeError then Exception else e), self)
                | Inr close \<Rightarrow> if \<not> close then (Inl Exception, self) else (Inr (), self))
           | Some _ \<Rightarrow> (Inl AttributeError, self))
      | Some v \<Rightarrow>
          (case map_of tmp_dict k of
             None \<Rightarrow> (Inl KeyError, self)
           | Some u \<Rightarrow>
               (case ne v u of
                  Inl e \<Rightarrow> (Inl e, self)
                | Inr differ \<Rightarrow> if differ then (Inl Exception, self) else (Inr (), self))))"

text \<open>
  Lines 138 to 147, the body of the loop over \<open>check_loss_functions\<close>, at iteration \<open>i\<close>.
  \<open>rand i ns\<close> stands for the two tensors of shape \<open>ns\<close> that \<open>torch.rand\<close> draws there.
  Reading \<open>self._signal_shape\<close> comes first, then the name \<open>device\<close>, then the saved and
  the initialized loss function, each called on the two tensors.
\<close>

definition check_loss_function ::
  "(real \<Rightarrow> dtensor \<Rightarrow> dtensor \<Rightarrow> load_error + bool) \<Rightarrow> (nat \<Rightarrow> nat list \<Rightarrow> real tensor \<times> real tensor)
     \<Rightarrow> (string \<times> val) list \<Rightarrow> string option \<Rightarrow> nat \<times> string \<Rightarrow> obj
     \<Rightarrow> (load_error + unit) \<times> obj" where
  "check_loss_function allclose rand tmp_dict device ik self =
     (case self ''_signal_shape'' of
        None \<Rightarrow> (Inl AttributeError, self)
      | Some (Size ns) \<Rightarrow>
          (case device of
             None \<Rightarrow> (Inl UnboundLocalError, self)
           | Some d \<Rightarrow>
               let tensor_a = (d, fst (rand (fst ik) ns));
                   tensor_b = (d, snd (rand (fst ik) ns))
               in case map_of tmp_dict (snd ik) of
                    None \<Rightarrow> (Inl KeyError, self)
                  | Some (Callable saved) \<Rightarrow>
                      (case saved tensor_a tensor_b of
                         Inl e \<Rightarrow> (Inl e, self)
                       | Inr saved_loss \<Rightarrow>
                           (case self (snd ik) of
                              None \<Rightarrow> (Inl AttributeError, self)
                            | Some (Callable init) \<Rightarrow>
                                (case init tensor_a tensor_b of
                                   Inl e \<Rightarrow> (Inl e, self)
                                 | Inr init_loss \<Rightarrow>
                                     (case allclose (1 / 100) saved_loss init_loss of
                                        Inl e \<Rightarrow> (Inl e, self)
                                      | Inr close \<Rightarrow>
                                          if \<not> close then (Inl Exception, self)
                                          else (Inr (), self)))
                            | Some _ \<Rightarrow> (Inl TypeError, self)))
                  | Some _ \<Rightarrow> (Inl TypeError, self))
      | Some _ \<Rightarrow> (Inl TypeError, self))"

text \<open>
  Line 149, the body of the last loop: \<open>setattr(self, k, v)\<close>.  Python's \<open>setattr\<close> on
  this object is a parameter: it gives the object with the attribute set, or it raises (a
  property without a setter, \<open>__slots__\<close>, a \<open>__setattr__\<close> of the class) and leaves the
  object as it is.
\<close>

definition set_attribute ::
  "(string \<Rightarrow> val \<Rightarrow> obj \<Rightarrow> load_error + obj) \<Rightarrow> string \<times> val \<Rightarrow> obj
     \<Rightarrow> (load_error + unit) \<times> obj" where
  "set_attribute setattr kv self =
     (case setattr (fst kv) (snd kv) self of
        Inl e \<Rightarrow> (Inl e, self)
      | Inr self' \<Rightarrow> (Inr (), self'))"

text \<open>Lines 111 to 147: the loop over \<open>check_attributes\<close>, then that over
  \<open>check_loss_functions\<close>.\<close>

definition checks ::
  "(real \<Rightarrow> dtensor \<Rightarrow> dtensor \<Rightarrow> load_error + bool) \<Rightarrow> (val \<Rightarrow> val \<Rightarrow> load_error + bool)
     \<Rightarrow> (nat \<Rightarrow> nat list \<Rightarrow> real tensor \<times> real tensor)
     \<Rightarrow> (string \<times> val) list \<Rightarrow> string option \<Rightarrow> string list \<Rightarrow> string list
     \<Rightarrow> obj \<Rightarrow> (load_error + unit) \<times> obj" where
  "checks allclose ne rand tmp_dict device check_attributes check_loss_functions self =
     (case for_each (check_attribute allclose ne tmp_dict) check_attributes self of
        (Inl e, self1) \<Rightarrow> (Inl e, self1)
      | (Inr u, self1) \<Rightarrow>
          for_each (check_loss_function allclose rand tmp_dict device)
            (enumerate 0 check_loss_functions) self1)"

text \<open>Lines 104 to 110: the device.\<close>

definition device_of :: "string option \<Rightarrow> (string \<times> val) list \<Rightarrow> string option" where
  "device_of map_location tmp_dict =
     (case map_location of
        Some d \<Rightarrow> Some d
      | None \<Rightarrow> first_device (map snd tmp_dict))"

text \<open>
  \<open>Synthesis.load\<close>.  \<open>loaded\<close> is what \<open>torch.load\<close> gives for the file: the saved
  dictionary, as the list of its items, or an exception.  The result is the exception raised,
  if any, and the object as \<open>load\<close> leaves it.
\<close>

definition load ::
  "(real \<Rightarrow> dtensor \<Rightarrow> dtensor \<Rightarrow> load_error + bool) \<Rightarrow> (val \<Rightarrow> val \<Rightarrow> load_error + bool)
     \<Rightarrow> (nat \<Rightarrow> nat list \<Rightarrow> real tensor \<times> real tensor)
     \<Rightarrow> (string \<Rightarrow> val \<Rightarrow> obj \<Rightarrow> load_error + obj)
     \<Rightarrow> load_error + (string \<times> val) list \<Rightarrow> string option \<Rightarrow> string list \<Rightarrow> string list
     \<Rightarrow> obj \<Rightarrow> (load_error + unit) \<times> obj" where
  "load allclose ne rand setattr loaded map_location check_attributes check_loss_functions self =
     (case loaded of
        Inl e \<Rightarrow> (Inl e, self)
      | Inr tmp_dict \<Rightarrow>
          (case checks allclose ne rand tmp_dict (device_of map_location tmp_dict)
                  check_attributes check_loss_functions self of
             (Inl e, self2) \<Rightarrow> (Inl e, self2)
           | (Inr u, self2) \<Rightarrow> for_each (set_attribute setattr) tmp_dict self2))"

text \<open>
  Concrete parameters: a comparison \<open>!=\<close> that is the inequality of the two values, a
  \<open>torch.allclose\<close> that accepts every pair, random tensors that are zero, the \<open>setattr\<close>
  of a plain object, and a \<open>setattr\<close> that refuses the attribute \<open>step\<close>.
\<close>

definition exact_ne :: "val \<Rightarrow> val \<Rightarrow> load_error + bool" where
  "exact_ne v u = Inr (v \<noteq> u)"

definition always_close :: "real \<Rightarrow> dtensor \<Rightarrow> dtensor \<Rightarrow> load_error + bool" where
  "always_close rtol a b = Inr True"

definition zeros_rand :: "nat \<Rightarrow> nat list \<Rightarrow> real tensor \<times> real tensor" where
  "zeros_rand i ns = (full ns 0, full ns 0)"

definition plain_setattr :: "string \<Rightarrow> val \<Rightarrow> obj \<Rightarrow> load_error + obj" where
  "plain_setattr k v self = Inr (self(k \<mapsto> v))"

definition step_is_read_only :: "string \<Rightarrow> val \<Rightarrow> obj \<Rightarrow> load_error + obj" where
  "step_is_read_only k v self = (if k = ''step'' then Inl AttributeError else Inr (self(k \<mapsto> v)))"

section \<open>Properties of the window\<close>

lemma create_window_shape:
  "shape (create_window s c) = [c, 1, s, s]"
  by (simp add: create_window_def Let_def tbin_def expand_def sum_last2_keepdim_def
      bshape_def ndim_def)

lemma gauss_at_pos: "0 < gauss_at s i"
  by (simp add: gauss_at_def gaussian_def Let_def)

lemma gaussian_shape: "shape (gaussian s sg) = [s]"
  by (simp add: gaussian_def Let_def)

lemma gauss_sum_pos:
  assumes "0 < s"
  shows "0 < (\<Sum>i'<s. \<Sum>j'<s. gauss_at s i' * gauss_at s j')"
proof -
  have "0 < (\<Sum>j'<s. gauss_at s i' * gauss_at s j')" for i'
    using assms by (intro sum_pos [where I = "{..<s}"]) (auto simp: gauss_at_pos)
  then show ?thesis
    using assms by (intro sum_pos [where I = "{..<s}" and f = "\<lambda>i'. \<Sum>j'<s. gauss_at s i' * gauss_at s j'"]) auto
qed

lemma bindex_in_range:
  assumes "i < s" "j < s"
  shows "bindex [c, k, s, s] [ch, 0, i, j] = [if c = 1 then 0 else ch, 0, i, j]"
  using assms by (auto simp: bindex_def)

lemma create_window_numerator:
  assumes "i < s" "j < s"
  shows "elem (expand [c, 1, s, s]
           (unsqueeze 0 (unsqueeze 0 (mm (unsqueeze 1 (gaussian s (3 / 2)))
              (transpose_t (unsqueeze 1 (gaussian s (3 / 2)))))))) [ch, 0, i, j]
         = gauss_at s i * gauss_at s j"
proof -
  have "bindex [1, 1, s, s] [ch, 0, i, j] = [0, 0, i, j]"
    using bindex_in_range [OF assms, of 1 1 ch] by simp
  then show ?thesis
    by (simp add: expand_def unsqueeze_def mm_def transpose_t_def gaussian_shape gauss_at_def)
qed

lemma create_window_elem:
  assumes "i < s" "j < s"
  shows "elem (create_window s c) [ch, 0, i, j] =
     gauss_at s i * gauss_at s j / (\<Sum>i'<s. \<Sum>j'<s. gauss_at s i' * gauss_at s j')"
proof -
  define w where "w = expand [c, 1, s, s]
           (unsqueeze 0 (unsqueeze 0 (mm (unsqueeze 1 (gaussian s (3 / 2)))
              (transpose_t (unsqueeze 1 (gaussian s (3 / 2)))))))"
  have sh: "shape w = [c, 1, s, s]"
    by (simp add: w_def expand_def)
  have w_at: "elem w [ch', 0, i', j'] = gauss_at s i' * gauss_at s j'"
    if "i' < s" "j' < s" for ch' i' j'
    unfolding w_def using that by (rule create_window_numerator)
  have num: "elem w (bindex [c, 1, s, s] [ch, 0, i, j]) = gauss_at s i * gauss_at s j"
    using assms by (simp add: bindex_in_range w_at)
  have "elem (sum_last2_keepdim w) (bindex [c, 1, 1, 1] [ch, 0, i, j])
      = (\<Sum>i'<s. \<Sum>j'<s. elem w [if c = 1 then 0 else ch, 0, i', j'])"
    by (simp add: sum_last2_keepdim_def Let_def ndim_def sh bindex_def)
  also have "\<dots> = (\<Sum>i'<s. \<Sum>j'<s. gauss_at s i' * gauss_at s j')"
    by (intro sum.cong refl) (simp add: w_at)
  finally have den: "elem (sum_last2_keepdim w) (bindex [c, 1, 1, 1] [ch, 0, i, j])
      = (\<Sum>i'<s. \<Sum>j'<s. gauss_at s i' * gauss_at s j')" .
  have "elem (create_window s c) [ch, 0, i, j]
      = elem w (bindex [c, 1, s, s] [ch, 0, i, j])
        / elem (sum_last2_keepdim w) (bindex [c, 1, 1, 1] [ch, 0, i, j])"
    unfolding create_window_def Let_def w_def [symmetric]
    by (simp add: tbin_def sh sum_last2_keepdim_def Let_def ndim_def)
  with num den show ?thesis by simp
qed


lemma create_window_channel_sum:
  assumes "0 < s"
  shows "(\<Sum>i<s. \<Sum>j<s. elem (create_window s c) [ch, 0, i, j]) = 1"
proof -
  define Z where "Z = (\<Sum>i'<s. \<Sum>j'<s. gauss_at s i' * gauss_at s j')"
  have Zpos: "0 < Z"
    unfolding Z_def using assms by (rule gauss_sum_pos)
  have "(\<Sum>i<s. \<Sum>j<s. elem (create_window s c) [ch, 0, i, j])
      = (\<Sum>i<s. \<Sum>j<s. gauss_at s i * gauss_at s j / Z)"
    by (intro sum.cong refl) (simp add: create_window_elem Z_def)
  also have "\<dots> = (\<Sum>i<s. \<Sum>j<s. gauss_at s i * gauss_at s j) / Z"
    by (simp add: sum_divide_distrib)
  also have "\<dots> = 1"
    using Zpos by (simp add: Z_def)
  finally show ?thesis .
qed

lemma indices_two:
  "set (indices [c, k]) = {[a, b] | a b. a < c \<and> b < k}"
  by auto

lemma sum_last2_create_window:
  assumes "0 < s" "v \<in> set (entries (sum_last2 (create_window s c)))"
  shows "v = 1"
proof -
  have sh: "shape (sum_last2 (create_window s c)) = [c, 1]"
    by (simp add: sum_last2_def Let_def ndim_def create_window_shape)
  from assms(2) obtain ix where ix: "ix \<in> set (indices [c, 1])"
    and v: "v = elem (sum_last2 (create_window s c)) ix"
    by (auto simp: entries_def sh)
  from ix obtain ch where "ix = [ch, 0]"
    unfolding indices_two by auto
  with v have "v = (\<Sum>i<s. \<Sum>j<s. elem (create_window s c) [ch, 0, i, j])"
    by (simp add: sum_last2_def Let_def ndim_def create_window_shape)
  then show ?thesis
    using assms(1) by (simp add: create_window_channel_sum)
qed

lemma check_window_create_window:
  assumes "0 < s"
  shows "check_window (create_window s c) = ([], Inr (tmap Some (create_window s c)))"
proof -
  have "\<not> (\<exists>v \<in> set (entries (sum_last2 (create_window s c))). 1 < v)"
    using sum_last2_create_window [OF assms] by fastforce
  then show ?thesis
    by (simp add: check_window_def ndim_def create_window_shape tmap_def)
qed





section \<open>Properties of the windowed statistics and of SSIM\<close>

lemma fadd_simps [simp]:
  "fadd (Some x) (Some y) = Some (x + y)" "fadd None b = None" "fadd a None = None"
  by (simp_all add: fadd_def split: option.splits)

lemma fsub_simps [simp]:
  "fsub (Some x) (Some y) = Some (x - y)" "fsub None b = None" "fsub a None = None"
  by (simp_all add: fsub_def split: option.splits)

lemma fmul_simps [simp]:
  "fmul (Some x) (Some y) = Some (x * y)" "fmul None b = None" "fmul a None = None"
  by (simp_all add: fmul_def split: option.splits)

lemma fdiv_simps [simp]:
  "fdiv (Some x) (Some y) = (if y = 0 then None else Some (x / y))"
  "fdiv None b = None" "fdiv a None = None"
  by (simp_all add: fdiv_def split: option.splits)

lemma flog_simps [simp]:
  "flog (Some x) = (if 0 < x then Some (ln x) else None)" "flog None = None"
  by (simp_all add: flog_def)

lemma fsqrt_simps [simp]:
  "fsqrt (Some x) = (if 0 \<le> x then Some (sqrt x) else None)" "fsqrt None = None"
  by (simp_all add: fsqrt_def)

lemma foldr_fadd_Some:
  assumes "\<And>i. i \<in> set xs \<Longrightarrow> f i = Some (g i)"
  shows "foldr (\<lambda>i acc. fadd (f i) acc) xs (Some 0) = Some (sum_list (map g xs))"
  using assms by (induction xs) simp_all

lemma fsum_Some:
  assumes "\<And>i. i < n \<Longrightarrow> f i = Some (g i)"
  shows "fsum n f = Some (\<Sum>i<n. g i)"
proof -
  have "fsum n f = Some (sum_list (map g [0..<n]))"
    unfolding fsum_def using assms by (intro foldr_fadd_Some) simp
  also have "sum_list (map g [0..<n]) = (\<Sum>i<n. g i)"
    by (simp add: interv_sum_list_conv_sum_set_nat atLeast0LessThan)
  finally show ?thesis .
qed

lemma foldr_fadd_None:
  assumes "i \<in> set xs" "f i = None"
  shows "foldr (\<lambda>i acc. fadd (f i) acc) xs (Some 0) = None"
  using assms by (induction xs) auto

lemma fsum_None:
  assumes "i < n" "f i = None"
  shows "fsum n f = None"
  unfolding fsum_def using assms by (intro foldr_fadd_None [of i]) simp_all

lemma has4I:
  assumes "shape T = [n, c, H, W]"
    and "\<And>b ch y x. b < n \<Longrightarrow> ch < c \<Longrightarrow> y < H \<Longrightarrow> x < W \<Longrightarrow> elem T [b, ch, y, x] = g b ch y x"
  shows "has4 T n c H W g"
  using assms by (simp add: has4_def)

lemma has4_shape: "has4 T n c H W g \<Longrightarrow> shape T = [n, c, H, W]"
  by (simp add: has4_def)

lemma has4_elem:
  "has4 T n c H W g \<Longrightarrow> b < n \<Longrightarrow> ch < c \<Longrightarrow> y < H \<Longrightarrow> x < W \<Longrightarrow> elem T [b, ch, y, x] = g b ch y x"
  by (simp add: has4_def)

lemma bindex4:
  assumes "ch < c" "y < H" "x < W"
  shows "bindex [n, c, H, W] [b, ch, y, x] = [bi n b, ch, y, x]"
  using assms by (auto simp: bindex_def bi_def)

lemma bi_less:
  assumes "n1 = n2 \<or> n1 = 1 \<or> n2 = 1" "0 < n1" "b < (if n1 = 1 then n2 else n1)"
  shows "bi n1 b < n1"
  using assms by (auto simp: bi_def)

lemma bi_less2:
  assumes "n1 = n2 \<or> n1 = 1 \<or> n2 = 1" "0 < n2" "b < (if n1 = 1 then n2 else n1)"
  shows "bi n2 b < n2"
  using assms by (auto simp: bi_def)

lemma has4_tmap:
  assumes "has4 T n c H W g"
  shows "has4 (tmap f T) n c H W (\<lambda>b ch y x. f (g b ch y x))"
  using assms by (simp add: has4_def tmap_def)

lemma has4_tbin:
  assumes A: "has4 A n1 c H W g1" and B: "has4 B n2 c H W g2"
    and compat: "n1 = n2 \<or> n1 = 1 \<or> n2 = 1" and pos: "0 < n1" "0 < n2"
  shows "has4 (tbin f A B) (if n1 = 1 then n2 else n1) c H W
           (\<lambda>b ch y x. f (g1 (bi n1 b) ch y x) (g2 (bi n2 b) ch y x))"
proof (rule has4I)
  show "shape (tbin f A B) = [if n1 = 1 then n2 else n1, c, H, W]"
    using has4_shape [OF A] has4_shape [OF B] by (simp add: tbin_def bshape_def)
next
  fix b ch y x
  assume r: "b < (if n1 = 1 then n2 else n1)" "ch < c" "y < H" "x < W"
  have b1: "bi n1 b < n1" using compat pos(1) r(1) by (rule bi_less)
  have b2: "bi n2 b < n2" using compat pos(2) r(1) by (rule bi_less2)
  show "elem (tbin f A B) [b, ch, y, x] = f (g1 (bi n1 b) ch y x) (g2 (bi n2 b) ch y x)"
    using r b1 b2
    by (simp add: tbin_def has4_shape [OF A] has4_shape [OF B] bindex4
        has4_elem [OF A] has4_elem [OF B])
qed

lemma create_window_win:
  "i < s \<Longrightarrow> j < s \<Longrightarrow> elem (create_window s c) [ch, 0, i, j] = win s i j"
  by (simp add: create_window_elem win_def)

lemma win_nonneg: "0 \<le> win s i j"
proof (cases "s = 0")
  case True
  then show ?thesis by (simp add: win_def gauss_at_pos less_imp_le)
next
  case False
  then have "0 < (\<Sum>i'<s. \<Sum>j'<s. gauss_at s i' * gauss_at s j')"
    by (intro gauss_sum_pos) simp
  then show ?thesis
    by (simp add: win_def gauss_at_pos less_imp_le)
qed

lemma win_sum: "0 < s \<Longrightarrow> (\<Sum>i<s. \<Sum>j<s. win s i j) = 1"
  using create_window_channel_sum [of s 1 0] by (simp add: create_window_win)

lemma has4_conv:
  assumes I: "has4 I n c h w g" and pos: "0 < c" "0 < s" and fit: "s \<le> h" "s \<le> w"
  shows "\<exists>T. conv2d I (tmap Some (create_window s c)) 0 c = Inr T
           \<and> has4 T n c (h + 1 - s) (w + 1 - s) (\<lambda>b ch y x. Some (wavg s (g b ch) y x))"
proof -
  define T :: "fl tensor" where "T = \<lparr>shape = [n, c, h + 1 - s, w + 1 - s],
      elem = \<lambda>ix. fsum 1 (\<lambda>ci. fsum s (\<lambda>i. fsum s (\<lambda>j.
         fmul (Some (padded I 0 [ix ! 0, (ix ! 1 div (c div c)) * 1 + ci, ix ! 2 + i, ix ! 3 + j]))
              (elem (tmap Some (create_window s c)) [ix ! 1, ci, i, j]))))\<rparr>"
  have c: "conv2d I (tmap Some (create_window s c)) 0 c = Inr T"
    using fit pos
    by (simp add: conv2d_def has4_shape [OF I] tmap_def create_window_shape T_def)
  have "has4 T n c (h + 1 - s) (w + 1 - s) (\<lambda>b ch y x. Some (wavg s (g b ch) y x))"
  proof (rule has4I)
    show "shape T = [n, c, h + 1 - s, w + 1 - s]" by (simp add: T_def)
  next
    fix b ch y x
    assume r: "b < n" "ch < c" "y < h + 1 - s" "x < w + 1 - s"
    have inner: "fmul (Some (padded I 0 [b, ch, y + i, x + j]))
              (elem (tmap Some (create_window s c)) [ch, 0, i, j])
            = Some (g b ch (y + i) (x + j) * win s i j)" if "i < s" "j < s" for i j
    proof -
      have "y + i < h" "x + j < w" using r that by auto
      then have "padded I 0 [b, ch, y + i, x + j] = g b ch (y + i) (x + j)"
        using r by (simp add: padded_def has4_shape [OF I] has4_elem [OF I])
      then show ?thesis
        using that by (simp add: tmap_def create_window_win)
    qed
    have "elem T [b, ch, y, x]
        = fsum 1 (\<lambda>ci. fsum s (\<lambda>i. fsum s (\<lambda>j.
            fmul (Some (padded I 0 [b, ch + ci, y + i, x + j]))
              (elem (tmap Some (create_window s c)) [ch, ci, i, j]))))"
      using pos by (simp add: T_def)
    also have "\<dots> = Some (\<Sum>ci::nat<1. \<Sum>i<s. \<Sum>j<s. g b ch (y + i) (x + j) * win s i j)"
    proof (rule fsum_Some)
      fix ci :: nat
      assume "ci < 1"
      then have ci: "ci = 0" by simp
      have row: "fsum s (\<lambda>j. fmul (Some (padded I 0 [b, ch, y + i, x + j]))
                  (elem (tmap Some (create_window s c)) [ch, 0, i, j]))
               = Some (\<Sum>j<s. g b ch (y + i) (x + j) * win s i j)" if "i < s" for i
        by (rule fsum_Some) (simp add: inner that)
      show "fsum s (\<lambda>i. fsum s (\<lambda>j. fmul (Some (padded I 0 [b, ch + ci, y + i, x + j]))
                  (elem (tmap Some (create_window s c)) [ch, ci, i, j])))
            = Some (\<Sum>i<s. \<Sum>j<s. g b ch (y + i) (x + j) * win s i j)"
        unfolding ci by (rule fsum_Some) (simp add: row)
    qed
    finally show "elem T [b, ch, y, x] = Some (wavg s (g b ch) y x)"
      by (simp add: wavg_def)
  qed
  with c show ?thesis by blast
qed

lemma matmul_not_square:
  assumes "shape A = [n1, c1, H, W]" "shape B = [n2, c2, H, W]" "H \<noteq> W"
  shows "matmul A B = Inl MatmulShape"
  using assms by (simp add: matmul_def)

lemma has4_matmul:
  assumes A: "has4 A n1 c H H g1" and B: "has4 B n2 c H H g2"
    and compat: "n1 = n2 \<or> n1 = 1 \<or> n2 = 1" and pos: "0 < n1" "0 < n2"
  shows "\<exists>T. matmul A B = Inr T
           \<and> has4 T (if n1 = 1 then n2 else n1) c H H
               (\<lambda>b ch y x. fsum H (\<lambda>k. fmul (g1 (bi n1 b) ch y k) (g2 (bi n2 b) ch k x)))"
proof -
  define T :: "fl tensor" where "T = \<lparr>shape = bshape [n1, c] [n2, c] @ [H, H],
      elem = \<lambda>ix. fsum H (\<lambda>k.
         fmul (elem A (bindex [n1, c] (take 2 ix) @ [ix ! 2, k]))
              (elem B (bindex [n2, c] (take 2 ix) @ [k, ix ! 3])))\<rparr>"
  have m: "matmul A B = Inr T"
    using compat
    by (auto simp: matmul_def has4_shape [OF A] has4_shape [OF B] T_def bcast_ok_def)
  have "has4 T (if n1 = 1 then n2 else n1) c H H
               (\<lambda>b ch y x. fsum H (\<lambda>k. fmul (g1 (bi n1 b) ch y k) (g2 (bi n2 b) ch k x)))"
  proof (rule has4I)
    show "shape T = [if n1 = 1 then n2 else n1, c, H, H]"
      by (simp add: T_def bshape_def)
  next
    fix b ch y x
    assume r: "b < (if n1 = 1 then n2 else n1)" "ch < c" "y < H" "x < H"
    have b1: "bi n1 b < n1" using compat pos(1) r(1) by (rule bi_less)
    have b2: "bi n2 b < n2" using compat pos(2) r(1) by (rule bi_less2)
    have ix: "bindex [n1, c] [b, ch] = [bi n1 b, ch]" "bindex [n2, c] [b, ch] = [bi n2 b, ch]"
      using r(2) by (auto simp: bindex_def bi_def)
    have "elem T [b, ch, y, x]
        = fsum H (\<lambda>k. fmul (elem A [bi n1 b, ch, y, k]) (elem B [bi n2 b, ch, k, x]))"
      by (simp add: T_def ix)
    also have "\<dots> = fsum H (\<lambda>k. fmul (g1 (bi n1 b) ch y k) (g2 (bi n2 b) ch k x))"
      unfolding fsum_def
      by (rule foldr_cong) (use r b1 b2 in \<open>simp_all add: has4_elem [OF A] has4_elem [OF B]\<close>)
    finally show "elem T [b, ch, y, x]
        = fsum H (\<lambda>k. fmul (g1 (bi n1 b) ch y k) (g2 (bi n2 b) ch k x))" .
  qed
  with m show ?thesis by blast
qed

lemma has4_cong:
  assumes "has4 T n c H W g"
    and "\<And>b ch y x. b < n \<Longrightarrow> ch < c \<Longrightarrow> y < H \<Longrightarrow> x < W \<Longrightarrow> g b ch y x = g' b ch y x"
  shows "has4 T n c H W g'"
  using assms by (simp add: has4_def)

lemma has4_self: "shape T = [n, c, H, W] \<Longrightarrow> has4 T n c H W (\<lambda>b ch y x. elem T [b, ch, y, x])"
  by (simp add: has4_def)

lemma bi_idem [simp]: "bi n (bi n b) = bi n b"
  by (simp add: bi_def)

lemma bi_id: "b < n \<Longrightarrow> bi n b = b"
  by (auto simp: bi_def)

lemma bi_bmax1: "b < (if n1 = 1 then n2 else n1) \<Longrightarrow> bi (if n1 = 1 then n2 else n1) b = b"
  by (rule bi_id)

lemma has4_tbin_same:
  assumes A: "has4 A n c H W g1" and B: "has4 B n c H W g2"
  shows "has4 (tbin f A B) n c H W (\<lambda>b ch y x. f (g1 b ch y x) (g2 b ch y x))"
  using has4_shape [OF A] has4_shape [OF B]
  by (intro has4I)
     (simp_all add: tbin_def bshape_def bindex4 bi_id has4_elem [OF A] has4_elem [OF B])

lemma ssim_maps_char:
  assumes s1: "shape img1 = [n1, c, h, w]" and s2: "shape img2 = [n2, c, h, w]"
    and pos: "0 < n1" "0 < n2" "0 < c" "0 < s" and fit: "s \<le> h" "s \<le> w"
    and compat: "n1 = n2 \<or> n1 = 1 \<or> n2 = 1"
  defines "nb \<equiv> (if n1 = 1 then n2 else n1)" and "H \<equiv> h + 1 - s" and "W \<equiv> w + 1 - s"
  shows "(h \<noteq> w \<longrightarrow> ssim_maps img1 img2 (tmap Some (create_window s c)) c dr = Inl MatmulShape)
   \<and> (h = w \<longrightarrow> (\<exists>M C Wt. ssim_maps img1 img2 (tmap Some (create_window s c)) c dr = Inr (M, C, Wt)
     \<and> has4 M nb c H H (\<lambda>b ch y x.
          ssim_entry dr (mean_at s img1 (bi n1 b) ch y x) (mean_at s img2 (bi n2 b) ch y x)
            (var_at s img1 (bi n1 b) ch y x) (var_at s img2 (bi n2 b) ch y x)
            (cov_at s img1 img2 (bi n1 b) (bi n2 b) ch y x))
     \<and> has4 C nb c H H (\<lambda>b ch y x.
          contrast_entry dr (var_at s img1 (bi n1 b) ch y x) (var_at s img2 (bi n2 b) ch y x)
            (cov_at s img1 img2 (bi n1 b) (bi n2 b) ch y x))
     \<and> has4 Wt nb c H H (\<lambda>b ch y x.
          flog (fsum H (\<lambda>k. fmul (weight_factor dr (var_at s img1 (bi n1 b) ch y k))
                                  (weight_factor dr (var_at s img2 (bi n2 b) ch k x)))))))"
proof -
  let ?w = "tmap Some (create_window s c)"
  note I1 = has4_self [OF s1] and I2 = has4_self [OF s2]
  have I11: "has4 (tbin (*) img1 img1) n1 c h w
      (\<lambda>b ch y x. elem img1 [b, ch, y, x] * elem img1 [b, ch, y, x])"
    using s1 by (intro has4I) (simp_all add: tbin_def bshape_def bindex4 bi_id)
  have I22: "has4 (tbin (*) img2 img2) n2 c h w
      (\<lambda>b ch y x. elem img2 [b, ch, y, x] * elem img2 [b, ch, y, x])"
    using s2 by (intro has4I) (simp_all add: tbin_def bshape_def bindex4 bi_id)
  have I12: "has4 (tbin (*) img1 img2) nb c h w
      (\<lambda>b ch y x. elem img1 [bi n1 b, ch, y, x] * elem img2 [bi n2 b, ch, y, x])"
    unfolding nb_def by (rule has4_tbin [OF I1 I2 compat pos(1) pos(2)])
  from has4_conv [OF I1 pos(3) pos(4) fit]
  obtain mu1 where mu1: "conv2d img1 ?w 0 c = Inr mu1"
    and hmu1: "has4 mu1 n1 c H W (\<lambda>b ch y x. Some (mean_at s img1 b ch y x))"
    unfolding mean_at_def H_def W_def by (elim exE conjE)
  from has4_conv [OF I2 pos(3) pos(4) fit]
  obtain mu2 where mu2: "conv2d img2 ?w 0 c = Inr mu2"
    and hmu2: "has4 mu2 n2 c H W (\<lambda>b ch y x. Some (mean_at s img2 b ch y x))"
    unfolding mean_at_def H_def W_def by (elim exE conjE)
  from has4_conv [OF I11 pos(3) pos(4) fit]
  obtain m11 where m11: "conv2d (tbin (*) img1 img1) ?w 0 c = Inr m11"
    and hm11: "has4 m11 n1 c H W (\<lambda>b ch y x. Some (prod_at s img1 img1 b b ch y x))"
    unfolding prod_at_def H_def W_def by (elim exE conjE)
  from has4_conv [OF I22 pos(3) pos(4) fit]
  obtain m22 where m22: "conv2d (tbin (*) img2 img2) ?w 0 c = Inr m22"
    and hm22: "has4 m22 n2 c H W (\<lambda>b ch y x. Some (prod_at s img2 img2 b b ch y x))"
    unfolding prod_at_def H_def W_def by (elim exE conjE)
  from has4_conv [OF I12 pos(3) pos(4) fit]
  obtain m12 where m12: "conv2d (tbin (*) img1 img2) ?w 0 c = Inr m12"
    and hm12: "has4 m12 nb c H W (\<lambda>b ch y x. Some (prod_at s img1 img2 (bi n1 b) (bi n2 b) ch y x))"
    unfolding prod_at_def H_def W_def by (elim exE conjE)
  let ?C1 = "Some (((1 / 100) * real_of_int dr) ^ 2)"
  let ?C2 = "Some (((3 / 100) * real_of_int dr) ^ 2)"
  let ?mu1_sq = "tmap (\<lambda>v. fmul v v) mu1"
  let ?mu2_sq = "tmap (\<lambda>v. fmul v v) mu2"
  let ?mu1_mu2 = "tbin fmul mu1 mu2"
  let ?sigma1_sq = "tbin fsub m11 ?mu1_sq"
  let ?sigma2_sq = "tbin fsub m22 ?mu2_sq"
  let ?sigma12 = "tbin fsub m12 ?mu1_mu2"
  let ?v1 = "tmap (\<lambda>v. fadd (fmul (Some 2) v) ?C2) ?sigma12"
  let ?v2 = "tmap (\<lambda>v. fadd v ?C2) (tbin fadd ?sigma1_sq ?sigma2_sq)"
  let ?contrast = "tbin fdiv ?v1 ?v2"
  let ?lum = "tbin fdiv (tmap (\<lambda>v. fadd (fmul (Some 2) v) ?C1) ?mu1_mu2)
                        (tmap (\<lambda>v. fadd v ?C1) (tbin fadd ?mu1_sq ?mu2_sq))"
  let ?f1 = "tmap (\<lambda>v. fadd (Some 1) (fdiv v ?C2)) ?sigma1_sq"
  let ?f2 = "tmap (\<lambda>v. fadd (Some 1) (fdiv v ?C2)) ?sigma2_sq"
  have hmu1_sq: "has4 ?mu1_sq n1 c H W
      (\<lambda>b ch y x. Some (mean_at s img1 b ch y x * mean_at s img1 b ch y x))"
    by (rule has4_cong [OF has4_tmap [OF hmu1]]) simp
  have hmu2_sq: "has4 ?mu2_sq n2 c H W
      (\<lambda>b ch y x. Some (mean_at s img2 b ch y x * mean_at s img2 b ch y x))"
    by (rule has4_cong [OF has4_tmap [OF hmu2]]) simp
  have hmu12: "has4 ?mu1_mu2 nb c H W
      (\<lambda>b ch y x. Some (mean_at s img1 (bi n1 b) ch y x * mean_at s img2 (bi n2 b) ch y x))"
    unfolding nb_def by (rule has4_cong [OF has4_tbin [OF hmu1 hmu2 compat pos(1) pos(2)]]) simp
  have hs1: "has4 ?sigma1_sq n1 c H W (\<lambda>b ch y x. Some (var_at s img1 b ch y x))"
    by (rule has4_cong [OF has4_tbin_same [OF hm11 hmu1_sq]]) (simp add: var_at_def)
  have hs2: "has4 ?sigma2_sq n2 c H W (\<lambda>b ch y x. Some (var_at s img2 b ch y x))"
    by (rule has4_cong [OF has4_tbin_same [OF hm22 hmu2_sq]]) (simp add: var_at_def)
  have hs12: "has4 ?sigma12 nb c H W
      (\<lambda>b ch y x. Some (cov_at s img1 img2 (bi n1 b) (bi n2 b) ch y x))"
    by (rule has4_cong [OF has4_tbin_same [OF hm12 hmu12]]) (simp add: cov_at_def)
  have hv1: "has4 ?v1 nb c H W
      (\<lambda>b ch y x. Some (2 * cov_at s img1 img2 (bi n1 b) (bi n2 b) ch y x + const2 dr))"
    by (rule has4_cong [OF has4_tmap [OF hs12]]) (simp add: const2_def)
  have hss: "has4 (tbin fadd ?sigma1_sq ?sigma2_sq) nb c H W
      (\<lambda>b ch y x. Some (var_at s img1 (bi n1 b) ch y x + var_at s img2 (bi n2 b) ch y x))"
    unfolding nb_def by (rule has4_cong [OF has4_tbin [OF hs1 hs2 compat pos(1) pos(2)]]) simp
  have hv2: "has4 ?v2 nb c H W
      (\<lambda>b ch y x. Some (var_at s img1 (bi n1 b) ch y x + var_at s img2 (bi n2 b) ch y x + const2 dr))"
    by (rule has4_cong [OF has4_tmap [OF hss]]) (simp add: const2_def)
  have hc: "has4 ?contrast nb c H W (\<lambda>b ch y x.
          contrast_entry dr (var_at s img1 (bi n1 b) ch y x) (var_at s img2 (bi n2 b) ch y x)
            (cov_at s img1 img2 (bi n1 b) (bi n2 b) ch y x))"
    by (rule has4_cong [OF has4_tbin_same [OF hv1 hv2]]) (simp add: contrast_entry_def)
  have hln: "has4 (tmap (\<lambda>v. fadd (fmul (Some 2) v) ?C1) ?mu1_mu2) nb c H W
      (\<lambda>b ch y x. Some (2 * (mean_at s img1 (bi n1 b) ch y x * mean_at s img2 (bi n2 b) ch y x)
                          + const1 dr))"
    by (rule has4_cong [OF has4_tmap [OF hmu12]]) (simp add: const1_def)
  have hmm: "has4 (tbin fadd ?mu1_sq ?mu2_sq) nb c H W
      (\<lambda>b ch y x. Some (mean_at s img1 (bi n1 b) ch y x * mean_at s img1 (bi n1 b) ch y x
                          + mean_at s img2 (bi n2 b) ch y x * mean_at s img2 (bi n2 b) ch y x))"
    unfolding nb_def
    by (rule has4_cong [OF has4_tbin [OF hmu1_sq hmu2_sq compat pos(1) pos(2)]]) simp
  have hld: "has4 (tmap (\<lambda>v. fadd v ?C1) (tbin fadd ?mu1_sq ?mu2_sq)) nb c H W
      (\<lambda>b ch y x. Some (mean_at s img1 (bi n1 b) ch y x * mean_at s img1 (bi n1 b) ch y x
                          + mean_at s img2 (bi n2 b) ch y x * mean_at s img2 (bi n2 b) ch y x
                          + const1 dr))"
    by (rule has4_cong [OF has4_tmap [OF hmm]]) (simp add: const1_def)
  have hM: "has4 (tbin fmul ?lum ?contrast) nb c H W (\<lambda>b ch y x.
          ssim_entry dr (mean_at s img1 (bi n1 b) ch y x) (mean_at s img2 (bi n2 b) ch y x)
            (var_at s img1 (bi n1 b) ch y x) (var_at s img2 (bi n2 b) ch y x)
            (cov_at s img1 img2 (bi n1 b) (bi n2 b) ch y x))"
    by (rule has4_cong [OF has4_tbin_same [OF has4_tbin_same [OF hln hld] hc]])
       (simp add: ssim_entry_def)
  have hf1: "has4 ?f1 n1 c H W (\<lambda>b ch y x. weight_factor dr (var_at s img1 b ch y x))"
    by (rule has4_cong [OF has4_tmap [OF hs1]]) (simp add: weight_factor_def const2_def)
  have hf2: "has4 ?f2 n2 c H W (\<lambda>b ch y x. weight_factor dr (var_at s img2 b ch y x))"
    by (rule has4_cong [OF has4_tmap [OF hs2]]) (simp add: weight_factor_def const2_def)
  show ?thesis
  proof (intro conjI impI)
    assume "h \<noteq> w"
    then have "H \<noteq> W"
      using fit by (auto simp: H_def W_def)
    then have "matmul ?f1 ?f2 = Inl MatmulShape"
      using has4_shape [OF hf1] has4_shape [OF hf2] by (intro matmul_not_square)
    then show "ssim_maps img1 img2 ?w c dr = Inl MatmulShape"
      unfolding ssim_maps_def mu1 mu2 m11 m22 m12 Let_def sum.case by simp
  next
    assume "h = w"
    then have W: "W = H" by (simp add: H_def W_def)
    note hf1' = hf1 [unfolded W] and hf2' = hf2 [unfolded W]
    from has4_matmul [OF hf1' hf2' compat pos(1) pos(2)]
    obtain pr where pr: "matmul ?f1 ?f2 = Inr pr"
      and hpr: "has4 pr nb c H H (\<lambda>b ch y x.
          fsum H (\<lambda>k. fmul (weight_factor dr (var_at s img1 (bi n1 b) ch y k))
                            (weight_factor dr (var_at s img2 (bi n2 b) ch k x))))"
      unfolding nb_def by (elim exE conjE)
    have res: "ssim_maps img1 img2 ?w c dr = Inr (tbin fmul ?lum ?contrast, ?contrast, tmap flog pr)"
      unfolding ssim_maps_def mu1 mu2 m11 m22 m12 Let_def sum.case pr by (rule refl)
    from res hM [unfolded W] hc [unfolded W] has4_tmap [OF hpr, of flog]
    show "\<exists>M C Wt. ssim_maps img1 img2 ?w c dr = Inr (M, C, Wt)
     \<and> has4 M nb c H H (\<lambda>b ch y x.
          ssim_entry dr (mean_at s img1 (bi n1 b) ch y x) (mean_at s img2 (bi n2 b) ch y x)
            (var_at s img1 (bi n1 b) ch y x) (var_at s img2 (bi n2 b) ch y x)
            (cov_at s img1 img2 (bi n1 b) (bi n2 b) ch y x))
     \<and> has4 C nb c H H (\<lambda>b ch y x.
          contrast_entry dr (var_at s img1 (bi n1 b) ch y x) (var_at s img2 (bi n2 b) ch y x)
            (cov_at s img1 img2 (bi n1 b) (bi n2 b) ch y x))
     \<and> has4 Wt nb c H H (\<lambda>b ch y x.
          flog (fsum H (\<lambda>k. fmul (weight_factor dr (var_at s img1 (bi n1 b) ch y k))
                                  (weight_factor dr (var_at s img2 (bi n2 b) ch k x)))))"
      by blast
  qed
qed

lemma ssim_parts_snd:
  "snd (ssim_parts img1 img2 dr) =
     (if numel img1 = 0 \<or> numel img2 = 0 then Inl EmptyMinMax
      else case shape img1 of
             [n_batches, n_channels, height, width] \<Rightarrow>
               if drop (length (shape img2) - 2) (shape img2) \<noteq> [height, width]
               then Inl SpatialMismatch
               else if n_batches \<noteq> hd (shape img2) \<and> n_batches \<noteq> 1 \<and> hd (shape img2) \<noteq> 1
               then Inl BatchMismatch
               else (case snd (check_window (create_window (real_size height width) n_channels)) of
                       Inl e \<Rightarrow> Inl e
                     | Inr window \<Rightarrow> ssim_maps img1 img2 window n_channels dr)
           | _ \<Rightarrow> Inl UnpackShape)"
  by (simp add: ssim_parts_def Let_def split: list.splits prod.splits sum.splits)

lemma ssim_snd:
  "snd (ssim img1 img2 weighted dr) =
     (case snd (ssim_parts img1 img2 dr) of
        Inl e \<Rightarrow> Inl e
      | Inr (map_ssim, contrast, weight) \<Rightarrow>
          Inr (if \<not> weighted then fmean_last2 map_ssim
               else tbin fdiv (fsum_last2 (tbin fmul map_ssim weight)) (fsum_last2 weight)))"
  by (simp add: ssim_def split: prod.splits sum.splits)

lemma ssim_map_snd:
  "snd (ssim_map img1 img2 dr) =
     (case snd (ssim_parts img1 img2 dr) of
        Inl e \<Rightarrow> Inl e
      | Inr (map_ssim, contrast, weight) \<Rightarrow> Inr map_ssim)"
  by (simp add: ssim_map_def split: prod.splits sum.splits)

lemma real_size_pos: "0 < h \<Longrightarrow> 0 < w \<Longrightarrow> 0 < real_size h w"
  by (simp add: real_size_def)

lemma real_size_le: "real_size h w \<le> h" "real_size h w \<le> w"
  by (simp_all add: real_size_def)

lemma ssim_parts_maps:
  assumes s1: "shape img1 = [n1, c, h, w]" and s2: "shape img2 = [n2, c2, h, w]"
    and pos: "0 < n1" "0 < n2" "0 < c" "0 < c2" "0 < h" "0 < w"
    and compat: "n1 = n2 \<or> n1 = 1 \<or> n2 = 1"
  shows "snd (ssim_parts img1 img2 dr)
       = ssim_maps img1 img2 (tmap Some (create_window (real_size h w) c)) c dr"
proof -
  have "check_window (create_window (real_size h w) c)
      = ([], Inr (tmap Some (create_window (real_size h w) c)))"
    using pos by (intro check_window_create_window real_size_pos)
  then show ?thesis
    using s1 s2 pos compat by (auto simp: ssim_parts_snd numel_def)
qed

lemma ssim_parts_spatial:
  assumes s1: "shape img1 = [n1, c, h, w]" and s2: "shape img2 = [n2, c2, h2, w2]"
    and pos: "0 < n1" "0 < n2" "0 < c" "0 < c2" "0 < h" "0 < w" "0 < h2" "0 < w2"
    and ne: "h2 \<noteq> h \<or> w2 \<noteq> w"
  shows "ssim_parts img1 img2 dr
       = (range_warning dr img1 img2 @ (if 1 < c then [MultiChannelWarning] else []),
          Inl SpatialMismatch)"
  using s1 s2 pos ne by (auto simp: ssim_parts_def numel_def Let_def)

lemma ssim_parts_batch:
  assumes s1: "shape img1 = [n1, c, h, w]" and s2: "shape img2 = [n2, c2, h, w]"
    and pos: "0 < n1" "0 < n2" "0 < c" "0 < c2" "0 < h" "0 < w"
    and ne: "n1 \<noteq> n2" "n1 \<noteq> 1" "n2 \<noteq> 1"
  shows "ssim_parts img1 img2 dr
       = (range_warning dr img1 img2 @ (if 1 < c then [MultiChannelWarning] else []),
          Inl BatchMismatch)"
  using s1 s2 pos ne by (auto simp: ssim_parts_def numel_def Let_def)

lemma conv2d_channels:
  assumes "shape img = [n, c2, h, w]" "c2 \<noteq> c"
  shows "conv2d img (tmap Some (create_window s c)) 0 c = Inl ConvShape"
  using assms by (simp add: conv2d_def tmap_def create_window_shape)

lemma ssim_parts_channels:
  assumes s1: "shape img1 = [n1, c, h, w]" and s2: "shape img2 = [n2, c2, h, w]"
    and pos: "0 < n1" "0 < n2" "0 < c" "0 < c2" "0 < h" "0 < w"
    and compat: "n1 = n2 \<or> n1 = 1 \<or> n2 = 1" and ne: "c2 \<noteq> c"
  shows "snd (ssim_parts img1 img2 dr) = Inl ConvShape"
proof -
  let ?w = "tmap Some (create_window (real_size h w) c)"
  obtain mu1 where mu1: "conv2d img1 ?w 0 c = Inr mu1"
    using has4_conv [OF has4_self [OF s1] pos(3) real_size_pos [OF pos(5) pos(6)] real_size_le]
    by blast
  have "conv2d img2 ?w 0 c = Inl ConvShape"
    using s2 ne by (rule conv2d_channels)
  then have "ssim_maps img1 img2 ?w c dr = Inl ConvShape"
    by (simp add: ssim_maps_def mu1)
  then show ?thesis
    using ssim_parts_maps [OF s1 s2 pos compat] by simp
qed

lemma wavg_add: "wavg s (\<lambda>r q. f r q + g r q) y x = wavg s f y x + wavg s g y x"
  by (simp add: wavg_def algebra_simps sum.distrib)

lemma wavg_diff: "wavg s (\<lambda>r q. f r q - g r q) y x = wavg s f y x - wavg s g y x"
  by (simp add: wavg_def algebra_simps sum_subtractf)

lemma wavg_cmul: "wavg s (\<lambda>r q. k * f r q) y x = k * wavg s f y x"
  by (simp add: wavg_def algebra_simps sum_distrib_left)

lemma wavg_const: "0 < s \<Longrightarrow> wavg s (\<lambda>r q. k) y x = k"
  using win_sum [of s] by (simp add: wavg_def sum_distrib_left [symmetric])

lemma wavg_nonneg:
  assumes "\<And>i j. i < s \<Longrightarrow> j < s \<Longrightarrow> 0 \<le> f (y + i) (x + j)"
  shows "0 \<le> wavg s f y x"
  unfolding wavg_def by (intro sum_nonneg mult_nonneg_nonneg win_nonneg) (simp add: assms)

lemma wavg_cong:
  assumes "\<And>i j. i < s \<Longrightarrow> j < s \<Longrightarrow> f (y + i) (x + j) = g (y + i) (x + j)"
  shows "wavg s f y x = wavg s g y x"
  unfolding wavg_def by (intro sum.cong refl) (simp add: assms)

lemma wavg_variance:
  assumes "0 < s"
  shows "0 \<le> wavg s (\<lambda>r q. f r q * f r q) y x - wavg s f y x * wavg s f y x"
proof -
  define m where "m = wavg s f y x"
  have "0 \<le> wavg s (\<lambda>r q. (f r q - m) * (f r q - m)) y x"
    by (rule wavg_nonneg) simp
  also have "wavg s (\<lambda>r q. (f r q - m) * (f r q - m)) y x
      = wavg s (\<lambda>r q. (f r q * f r q - (2 * m) * f r q) + m * m) y x"
    by (rule wavg_cong) (simp add: algebra_simps)
  also have "\<dots> = wavg s (\<lambda>r q. f r q * f r q) y x - (2 * m) * wavg s f y x + m * m"
    using assms by (simp only: wavg_add wavg_diff wavg_cmul wavg_const)
  also have "\<dots> = wavg s (\<lambda>r q. f r q * f r q) y x - m * m"
    by (simp add: m_def)
  finally show ?thesis by (simp add: m_def)
qed

lemma var_at_nonneg: "0 < s \<Longrightarrow> 0 \<le> var_at s img b ch y x"
  unfolding var_at_def prod_at_def mean_at_def by (rule wavg_variance)

lemma cov_at_same: "cov_at s img img b b ch y x = var_at s img b ch y x"
  by (simp add: cov_at_def var_at_def)

lemma cov_at_bound:
  assumes "0 < s"
  shows "\<bar>2 * cov_at s img1 img2 b1 b2 ch y x\<bar>
           \<le> var_at s img1 b1 ch y x + var_at s img2 b2 ch y x"
proof -
  let ?f = "\<lambda>r q. elem img1 [b1, ch, r, q]" and ?g = "\<lambda>r q. elem img2 [b2, ch, r, q]"
  have plus: "0 \<le> wavg s (\<lambda>r q. (?f r q + ?g r q) * (?f r q + ?g r q)) y x
                - wavg s (\<lambda>r q. ?f r q + ?g r q) y x * wavg s (\<lambda>r q. ?f r q + ?g r q) y x"
    using assms by (rule wavg_variance)
  have minus: "0 \<le> wavg s (\<lambda>r q. (?f r q - ?g r q) * (?f r q - ?g r q)) y x
                - wavg s (\<lambda>r q. ?f r q - ?g r q) y x * wavg s (\<lambda>r q. ?f r q - ?g r q) y x"
    using assms by (rule wavg_variance)
  have e1: "wavg s (\<lambda>r q. (?f r q + ?g r q) * (?f r q + ?g r q)) y x
      = wavg s (\<lambda>r q. ?f r q * ?f r q) y x + 2 * wavg s (\<lambda>r q. ?f r q * ?g r q) y x
        + wavg s (\<lambda>r q. ?g r q * ?g r q) y x"
  proof -
    have "wavg s (\<lambda>r q. (?f r q + ?g r q) * (?f r q + ?g r q)) y x
        = wavg s (\<lambda>r q. (?f r q * ?f r q + 2 * (?f r q * ?g r q)) + ?g r q * ?g r q) y x"
      by (rule wavg_cong) (simp add: algebra_simps)
    then show ?thesis by (simp only: wavg_add wavg_cmul)
  qed
  have e2: "wavg s (\<lambda>r q. (?f r q - ?g r q) * (?f r q - ?g r q)) y x
      = wavg s (\<lambda>r q. ?f r q * ?f r q) y x - 2 * wavg s (\<lambda>r q. ?f r q * ?g r q) y x
        + wavg s (\<lambda>r q. ?g r q * ?g r q) y x"
  proof -
    have "wavg s (\<lambda>r q. (?f r q - ?g r q) * (?f r q - ?g r q)) y x
        = wavg s (\<lambda>r q. (?f r q * ?f r q - 2 * (?f r q * ?g r q)) + ?g r q * ?g r q) y x"
      by (rule wavg_cong) (simp add: algebra_simps)
    then show ?thesis by (simp only: wavg_add wavg_diff wavg_cmul)
  qed
  from plus minus show ?thesis
    unfolding e1 e2 wavg_add wavg_diff cov_at_def var_at_def prod_at_def mean_at_def
    by (simp add: algebra_simps abs_le_iff)
qed

lemma const_pos: "dr \<noteq> 0 \<Longrightarrow> 0 < const1 dr" "dr \<noteq> 0 \<Longrightarrow> 0 < const2 dr"
  by (simp_all add: const1_def const2_def)

lemma ssim_entry_val:
  assumes "dr \<noteq> 0" "0 \<le> v1" "0 \<le> v2"
  shows "ssim_entry dr m1 m2 v1 v2 cov = Some (ssim_val dr m1 m2 v1 v2 cov)"
proof -
  have "0 < m1 * m1 + m2 * m2 + const1 dr"
    using const_pos(1) [OF assms(1)] by (simp add: add_nonneg_pos)
  moreover have "0 < v1 + v2 + const2 dr"
    using const_pos(2) [OF assms(1)] assms(2,3) by (simp add: add_nonneg_pos)
  ultimately show ?thesis
    by (simp add: ssim_entry_def contrast_entry_def ssim_val_def)
qed

lemma ratio_bound:
  fixes a d :: real
  assumes "0 < d" "\<bar>a\<bar> \<le> d"
  shows "\<bar>a / d\<bar> \<le> 1"
  using assms by (simp add: abs_le_iff pos_divide_le_eq pos_le_divide_eq)

lemma ssim_val_bound:
  assumes dr: "dr \<noteq> 0" and v: "0 \<le> v1" "0 \<le> v2" and cov: "\<bar>2 * cov\<bar> \<le> v1 + v2"
  shows "\<bar>ssim_val dr m1 m2 v1 v2 cov\<bar> \<le> 1"
proof -
  have c1: "0 < const1 dr" and c2: "0 < const2 dr"
    using dr by (simp_all add: const_pos)
  have sq: "\<bar>2 * (m1 * m2)\<bar> \<le> m1 * m1 + m2 * m2"
    using sum_squares_bound [of m1 m2] sum_squares_bound [of "- m1" m2]
    by (simp add: abs_le_iff power2_eq_square)
  have l: "\<bar>(2 * (m1 * m2) + const1 dr) / (m1 * m1 + m2 * m2 + const1 dr)\<bar> \<le> 1"
    using c1 sq by (intro ratio_bound) (auto simp: abs_le_iff add_nonneg_pos)
  have c: "\<bar>(2 * cov + const2 dr) / (v1 + v2 + const2 dr)\<bar> \<le> 1"
    using c2 v cov by (intro ratio_bound) (auto simp: abs_le_iff add_nonneg_pos)
  have "\<bar>ssim_val dr m1 m2 v1 v2 cov\<bar>
      = \<bar>(2 * (m1 * m2) + const1 dr) / (m1 * m1 + m2 * m2 + const1 dr)\<bar>
        * \<bar>(2 * cov + const2 dr) / (v1 + v2 + const2 dr)\<bar>"
    by (simp add: ssim_val_def abs_mult)
  also have "\<dots> \<le> 1 * 1"
    using l c by (intro mult_mono) simp_all
  finally show ?thesis by simp
qed

lemma ssim_val_same:
  assumes "dr \<noteq> 0" "0 \<le> v"
  shows "ssim_val dr m m v v v = 1"
proof -
  have "0 < m * m + m * m + const1 dr"
    using const_pos(1) [OF assms(1)] by (simp add: add_nonneg_pos)
  moreover have "0 < v + v + const2 dr"
    using const_pos(2) [OF assms(1)] assms(2) by (simp add: add_nonneg_pos)
  ultimately show ?thesis
    by (simp add: ssim_val_def)
qed

lemma fsum2_Some:
  assumes "\<And>y x. y < H \<Longrightarrow> x < W \<Longrightarrow> f y x = Some (g y x)"
  shows "fsum H (\<lambda>y. fsum W (\<lambda>x. f y x)) = Some (\<Sum>y<H. \<Sum>x<W. g y x)"
proof (rule fsum_Some)
  fix y assume "y < H"
  then show "fsum W (\<lambda>x. f y x) = Some (\<Sum>x<W. g y x)"
    by (intro fsum_Some) (simp add: assms)
qed

lemma fsum_last2_4d:
  assumes "shape t = [n, c, H, W]"
  shows "shape (fsum_last2 t) = [n, c]"
    and "elem (fsum_last2 t) [b, ch] = fsum H (\<lambda>i. fsum W (\<lambda>j. elem t [b, ch, i, j]))"
  using assms by (simp_all add: fsum_last2_def ndim_def Let_def)

lemma fmean_last2_4d:
  assumes "shape t = [n, c, H, W]"
  shows "shape (fmean_last2 t) = [n, c]"
    and "elem (fmean_last2 t) [b, ch]
       = fdiv (fsum H (\<lambda>i. fsum W (\<lambda>j. elem t [b, ch, i, j]))) (Some (real (H * W)))"
  using assms by (simp_all add: fmean_last2_def fsum_last2_def ndim_def Let_def tmap_def)

lemma fsum_last2_has4:
  assumes M: "has4 M n c H W (\<lambda>b ch y x. Some (r b ch y x))" and r: "b < n" "ch < c"
  shows "elem (fsum_last2 M) [b, ch] = Some (\<Sum>y<H. \<Sum>x<W. r b ch y x)"
  unfolding fsum_last2_4d(2) [OF has4_shape [OF M]]
  by (rule fsum2_Some) (simp add: has4_elem [OF M] r)

lemma fmean_last2_has4:
  assumes M: "has4 M n c H W (\<lambda>b ch y x. Some (r b ch y x))" and r: "b < n" "ch < c"
    and pos: "0 < H" "0 < W"
  shows "elem (fmean_last2 M) [b, ch] = Some ((\<Sum>y<H. \<Sum>x<W. r b ch y x) / real (H * W))"
proof -
  have "fsum H (\<lambda>i. fsum W (\<lambda>j. elem M [b, ch, i, j])) = Some (\<Sum>y<H. \<Sum>x<W. r b ch y x)"
    by (rule fsum2_Some) (simp add: has4_elem [OF M] r)
  then show ?thesis
    using pos by (simp add: fmean_last2_4d(2) [OF has4_shape [OF M]])
qed

lemma sum2_abs_bound:
  fixes r :: "nat \<Rightarrow> nat \<Rightarrow> real"
  assumes "\<And>y x. y < H \<Longrightarrow> x < W \<Longrightarrow> \<bar>r y x\<bar> \<le> 1"
  shows "\<bar>\<Sum>y<H. \<Sum>x<W. r y x\<bar> \<le> real (H * W)"
proof -
  have "\<bar>\<Sum>y<H. \<Sum>x<W. r y x\<bar> \<le> (\<Sum>y<H. \<bar>\<Sum>x<W. r y x\<bar>)"
    by (rule sum_abs)
  also have "\<dots> \<le> (\<Sum>y<H. \<Sum>x<W. \<bar>r y x\<bar>)"
    by (intro sum_mono sum_abs)
  also have "\<dots> \<le> (\<Sum>y<H. \<Sum>x<W. 1)"
    by (intro sum_mono) (simp add: assms)
  also have "\<dots> = real (H * W)" by simp
  finally show ?thesis .
qed

lemma sum2_weighted_bound:
  fixes r w :: "nat \<Rightarrow> nat \<Rightarrow> real"
  assumes "\<And>y x. y < H \<Longrightarrow> x < W \<Longrightarrow> \<bar>r y x\<bar> \<le> 1"
    and "\<And>y x. y < H \<Longrightarrow> x < W \<Longrightarrow> 0 \<le> w y x"
  shows "\<bar>\<Sum>y<H. \<Sum>x<W. r y x * w y x\<bar> \<le> (\<Sum>y<H. \<Sum>x<W. w y x)"
proof -
  have "\<bar>\<Sum>y<H. \<Sum>x<W. r y x * w y x\<bar> \<le> (\<Sum>y<H. \<bar>\<Sum>x<W. r y x * w y x\<bar>)"
    by (rule sum_abs)
  also have "\<dots> \<le> (\<Sum>y<H. \<Sum>x<W. \<bar>r y x * w y x\<bar>)"
    by (intro sum_mono sum_abs)
  also have "\<dots> \<le> (\<Sum>y<H. \<Sum>x<W. w y x)"
  proof (intro sum_mono)
    fix y x assume "y \<in> {..<H}" "x \<in> {..<W}"
    then have yx: "y < H" "x < W" by simp_all
    have "\<bar>r y x * w y x\<bar> = \<bar>r y x\<bar> * w y x"
      using assms(2) [OF yx] by (simp add: abs_mult)
    also have "\<dots> \<le> 1 * w y x"
      using assms(1) [OF yx] assms(2) [OF yx] by (intro mult_right_mono)
    finally show "\<bar>r y x * w y x\<bar> \<le> w y x" by simp
  qed
  finally show ?thesis .
qed

lemma weight_entry:
  assumes dr: "dr \<noteq> 0" and H: "0 < H"
    and a: "\<And>k. k < H \<Longrightarrow> 0 \<le> a k" and b: "\<And>k. k < H \<Longrightarrow> 0 \<le> b k"
  shows "flog (fsum H (\<lambda>k. fmul (weight_factor dr (a k)) (weight_factor dr (b k))))
           = Some (weight_val dr H a b)"
    and "0 \<le> weight_val dr H a b"
proof -
  have c2: "0 < const2 dr" using dr by (rule const_pos)
  have s: "fsum H (\<lambda>k. fmul (weight_factor dr (a k)) (weight_factor dr (b k)))
         = Some (\<Sum>k<H. (1 + a k / const2 dr) * (1 + b k / const2 dr))"
    using c2 by (intro fsum_Some) (simp add: weight_factor_def)
  have ge: "1 \<le> (1 + a k / const2 dr) * (1 + b k / const2 dr)" if "k < H" for k
  proof -
    have "1 \<le> 1 + a k / const2 dr" "1 \<le> 1 + b k / const2 dr"
      using a [OF that] b [OF that] c2 by simp_all
    then have "1 * 1 \<le> (1 + a k / const2 dr) * (1 + b k / const2 dr)"
      by (intro mult_mono) simp_all
    then show ?thesis by simp
  qed
  have "(\<Sum>k<H. (1::real)) \<le> (\<Sum>k<H. (1 + a k / const2 dr) * (1 + b k / const2 dr))"
    by (intro sum_mono) (simp add: ge)
  then have big: "1 \<le> (\<Sum>k<H. (1 + a k / const2 dr) * (1 + b k / const2 dr))"
    using H by simp
  show "flog (fsum H (\<lambda>k. fmul (weight_factor dr (a k)) (weight_factor dr (b k))))
           = Some (weight_val dr H a b)"
    using big by (simp add: s weight_val_def)
  show "0 \<le> weight_val dr H a b"
    using big by (simp add: weight_val_def)
qed

lemma ssim_parts_char:
  assumes s1: "shape img1 = [n1, c, h, h]" and s2: "shape img2 = [n2, c, h, h]"
    and pos: "0 < n1" "0 < n2" "0 < c" "0 < h"
    and compat: "n1 = n2 \<or> n1 = 1 \<or> n2 = 1"
    and dr: "dr \<noteq> 0"
  defines "s \<equiv> real_size h h"
  defines "nb \<equiv> (if n1 = 1 then n2 else n1)" and "H \<equiv> h + 1 - s"
  shows "\<exists>M C Wt. snd (ssim_parts img1 img2 dr) = Inr (M, C, Wt)
     \<and> has4 M nb c H H (\<lambda>b ch y x. Some
          (ssim_val dr (mean_at s img1 (bi n1 b) ch y x) (mean_at s img2 (bi n2 b) ch y x)
            (var_at s img1 (bi n1 b) ch y x) (var_at s img2 (bi n2 b) ch y x)
            (cov_at s img1 img2 (bi n1 b) (bi n2 b) ch y x)))
     \<and> has4 Wt nb c H H (\<lambda>b ch y x. Some
          (weight_val dr H (\<lambda>k. var_at s img1 (bi n1 b) ch y k)
                           (\<lambda>k. var_at s img2 (bi n2 b) ch k x)))"
proof -
  have spos: "0 < s" unfolding s_def using pos(4) by (intro real_size_pos)
  have fit: "s \<le> h" unfolding s_def by (rule real_size_le)
  have Hpos: "0 < H" using fit by (simp add: H_def)
  from ssim_maps_char [OF s1 s2 pos(1,2,3) spos fit fit compat, of dr]
  obtain M C Wt where res: "ssim_maps img1 img2 (tmap Some (create_window s c)) c dr = Inr (M, C, Wt)"
    and hM: "has4 M nb c H H (\<lambda>b ch y x.
          ssim_entry dr (mean_at s img1 (bi n1 b) ch y x) (mean_at s img2 (bi n2 b) ch y x)
            (var_at s img1 (bi n1 b) ch y x) (var_at s img2 (bi n2 b) ch y x)
            (cov_at s img1 img2 (bi n1 b) (bi n2 b) ch y x))"
    and hW: "has4 Wt nb c H H (\<lambda>b ch y x.
          flog (fsum H (\<lambda>k. fmul (weight_factor dr (var_at s img1 (bi n1 b) ch y k))
                                  (weight_factor dr (var_at s img2 (bi n2 b) ch k x)))))"
    unfolding nb_def H_def by blast
  have "snd (ssim_parts img1 img2 dr) = Inr (M, C, Wt)"
    using ssim_parts_maps [OF s1 s2 pos(1,2,3,3,4,4) compat, of dr] res
    by (simp add: s_def)
  moreover have "has4 M nb c H H (\<lambda>b ch y x. Some
          (ssim_val dr (mean_at s img1 (bi n1 b) ch y x) (mean_at s img2 (bi n2 b) ch y x)
            (var_at s img1 (bi n1 b) ch y x) (var_at s img2 (bi n2 b) ch y x)
            (cov_at s img1 img2 (bi n1 b) (bi n2 b) ch y x)))"
    by (rule has4_cong [OF hM]) (simp add: ssim_entry_val dr var_at_nonneg spos)
  moreover have "has4 Wt nb c H H (\<lambda>b ch y x. Some
          (weight_val dr H (\<lambda>k. var_at s img1 (bi n1 b) ch y k)
                           (\<lambda>k. var_at s img2 (bi n2 b) ch k x)))"
    by (rule has4_cong [OF hW]) (simp add: weight_entry(1) dr Hpos var_at_nonneg spos)
  ultimately show ?thesis by blast
qed

lemma bindex2: "b < n \<Longrightarrow> ch < c \<Longrightarrow> bindex [n, c] [b, ch] = [b, ch]"
  by (auto simp: bindex_def)

lemma ssim_at_bound:
  assumes "dr \<noteq> 0" "0 < shape img1 ! 2" "0 < shape img1 ! 3"
  shows "\<bar>ssim_at dr img1 img2 b ch y x\<bar> \<le> 1"
  unfolding ssim_at_def Let_def
  using assms by (intro ssim_val_bound var_at_nonneg cov_at_bound real_size_pos)

lemma weight_at_nonneg:
  assumes "dr \<noteq> 0" "0 < shape img1 ! 2" "0 < shape img1 ! 3"
  shows "0 \<le> weight_at dr img1 img2 b ch y x"
proof -
  have s: "0 < real_size (shape img1 ! 2) (shape img1 ! 3)"
    using assms by (intro real_size_pos)
  have "0 < shape img1 ! 2 + 1 - real_size (shape img1 ! 2) (shape img1 ! 3)"
    using real_size_le(1) [of "shape img1 ! 2" "shape img1 ! 3"] by simp
  then show ?thesis
    unfolding weight_at_def Let_def
    using assms(1) s by (intro weight_entry(2)) (simp_all add: var_at_nonneg)
qed

lemma ssim_char:
  assumes s1: "shape img1 = [n1, c, h, h]" and s2: "shape img2 = [n2, c, h, h]"
    and pos: "0 < n1" "0 < n2" "0 < c" "0 < h"
    and compat: "n1 = n2 \<or> n1 = 1 \<or> n2 = 1"
    and dr: "dr \<noteq> 0"
  defines "H \<equiv> h + 1 - real_size h h"
  shows "\<exists>M C Wt t u.
       snd (ssim_parts img1 img2 dr) = Inr (M, C, Wt)
     \<and> has4 M (max n1 n2) c H H (\<lambda>b ch y x. Some (ssim_at dr img1 img2 b ch y x))
     \<and> has4 Wt (max n1 n2) c H H (\<lambda>b ch y x. Some (weight_at dr img1 img2 b ch y x))
     \<and> snd (ssim img1 img2 False dr) = Inr t \<and> shape t = [max n1 n2, c]
     \<and> (\<forall>b<max n1 n2. \<forall>ch<c. elem t [b, ch]
           = Some ((\<Sum>y<H. \<Sum>x<H. ssim_at dr img1 img2 b ch y x) / real (H * H)))
     \<and> snd (ssim img1 img2 True dr) = Inr u \<and> shape u = [max n1 n2, c]
     \<and> (\<forall>b<max n1 n2. \<forall>ch<c. elem u [b, ch]
           = (if (\<Sum>y<H. \<Sum>x<H. weight_at dr img1 img2 b ch y x) = 0 then None
              else Some ((\<Sum>y<H. \<Sum>x<H. ssim_at dr img1 img2 b ch y x * weight_at dr img1 img2 b ch y x)
                         / (\<Sum>y<H. \<Sum>x<H. weight_at dr img1 img2 b ch y x))))"
proof -
  have nb: "(if n1 = 1 then n2 else n1) = max n1 n2"
    using compat pos by auto
  have Hpos: "0 < H"
    using real_size_le(1) [of h h] by (simp add: H_def)
  from ssim_parts_char [OF s1 s2 pos compat dr]
  obtain M C Wt where parts: "snd (ssim_parts img1 img2 dr) = Inr (M, C, Wt)"
    and hM: "has4 M (max n1 n2) c H H (\<lambda>b ch y x. Some (ssim_at dr img1 img2 b ch y x))"
    and hW: "has4 Wt (max n1 n2) c H H (\<lambda>b ch y x. Some (weight_at dr img1 img2 b ch y x))"
    unfolding nb H_def ssim_at_def weight_at_def Let_def s1 s2 by (auto simp: )
  let ?t = "fmean_last2 M"
  let ?u = "tbin fdiv (fsum_last2 (tbin fmul M Wt)) (fsum_last2 Wt)"
  have t: "snd (ssim img1 img2 False dr) = Inr ?t" and u: "snd (ssim img1 img2 True dr) = Inr ?u"
    by (simp_all add: ssim_snd parts)
  have sht: "shape ?t = [max n1 n2, c]"
    by (rule fmean_last2_4d(1) [OF has4_shape [OF hM]])
  have hMW: "has4 (tbin fmul M Wt) (max n1 n2) c H H
      (\<lambda>b ch y x. Some (ssim_at dr img1 img2 b ch y x * weight_at dr img1 img2 b ch y x))"
    by (rule has4_cong [OF has4_tbin_same [OF hM hW]]) simp
  have sa: "shape (fsum_last2 (tbin fmul M Wt)) = [max n1 n2, c]"
    by (rule fsum_last2_4d(1) [OF has4_shape [OF hMW]])
  have sb: "shape (fsum_last2 Wt) = [max n1 n2, c]"
    by (rule fsum_last2_4d(1) [OF has4_shape [OF hW]])
  have shu: "shape ?u = [max n1 n2, c]"
    by (simp add: tbin_def [of fdiv] bshape_def sa sb)
  have et: "elem ?t [b, ch] = Some ((\<Sum>y<H. \<Sum>x<H. ssim_at dr img1 img2 b ch y x) / real (H * H))"
    if "b < max n1 n2" "ch < c" for b ch
    using fmean_last2_has4 [OF hM that Hpos Hpos] .
  have eu: "elem ?u [b, ch]
           = (if (\<Sum>y<H. \<Sum>x<H. weight_at dr img1 img2 b ch y x) = 0 then None
              else Some ((\<Sum>y<H. \<Sum>x<H. ssim_at dr img1 img2 b ch y x * weight_at dr img1 img2 b ch y x)
                         / (\<Sum>y<H. \<Sum>x<H. weight_at dr img1 img2 b ch y x)))"
    if "b < max n1 n2" "ch < c" for b ch
    using that
    by (simp add: tbin_def [of fdiv] sa sb bindex2
        fsum_last2_has4 [OF hMW] fsum_last2_has4 [OF hW])
  from parts hM hW t sht et u shu eu show ?thesis
    by blast
qed

lemma valid_dr: "dr = 1 \<or> dr = 2 \<or> dr = 255 \<Longrightarrow> dr \<noteq> (0::int)"
  by auto

lemma full_shape [simp]: "shape (full s v) = s"
  by (simp add: full_def)

lemma full_elem [simp]: "elem (full s v) ix = v"
  by (simp add: full_def)

lemma ratio_bound2:
  fixes a d :: real
  assumes "0 < d" "\<bar>a\<bar> \<le> d"
  shows "- 1 \<le> a / d \<and> a / d \<le> 1"
  using ratio_bound [OF assms] by (simp only: abs_le_iff) simp

text \<open>
  The bounds that hold over the real numbers.  For two 4d inputs without an empty
  dimension, of the same channel count and the same square spatial size, with batch sizes
  that are equal or one of which is 1, and a dynamic range of 1, 2 or 255: \<open>ssim\<close> returns a
  tensor of shape \<open>(max n1 n2, c)\<close>; with \<open>weighted=False\<close> every entry lies in the interval
  from \<open>-1\<close> to \<open>1\<close>; with \<open>weighted=True\<close> every entry lies in that interval or is not a
  finite number.
\<close>

theorem ssim_bounded:
  assumes s1: "shape img1 = [n1, c, h, h]" and s2: "shape img2 = [n2, c, h, h]"
    and pos: "0 < n1" "0 < n2" "0 < c" "0 < h"
    and compat: "n1 = n2 \<or> n1 = 1 \<or> n2 = 1"
    and dr: "dr = 1 \<or> dr = 2 \<or> dr = 255"
  shows "(\<exists>t. snd (ssim img1 img2 False dr) = Inr t \<and> shape t = [max n1 n2, c]
            \<and> (\<forall>b<max n1 n2. \<forall>ch<c. \<exists>v. elem t [b, ch] = Some v \<and> - 1 \<le> v \<and> v \<le> 1))
       \<and> (\<exists>u. snd (ssim img1 img2 True dr) = Inr u \<and> shape u = [max n1 n2, c]
            \<and> (\<forall>b<max n1 n2. \<forall>ch<c.
                  elem u [b, ch] = None \<or> (\<exists>v. elem u [b, ch] = Some v \<and> - 1 \<le> v \<and> v \<le> 1)))"
proof -
  define H where "H = h + 1 - real_size h h"
  have dr0: "dr \<noteq> 0" using dr by (rule valid_dr)
  have Hpos: "0 < H"
    using real_size_le(1) [of h h] by (simp add: H_def)
  have hp: "0 < shape img1 ! 2" "0 < shape img1 ! 3"
    using s1 pos by simp_all
  note eb = ssim_at_bound [OF dr0 hp, of img2] and wn = weight_at_nonneg [OF dr0 hp, of img2]
  from ssim_char [OF s1 s2 pos compat dr0]
  obtain t u where t: "snd (ssim img1 img2 False dr) = Inr t" "shape t = [max n1 n2, c]"
    and et: "\<forall>b<max n1 n2. \<forall>ch<c. elem t [b, ch]
           = Some ((\<Sum>y<H. \<Sum>x<H. ssim_at dr img1 img2 b ch y x) / real (H * H))"
    and u: "snd (ssim img1 img2 True dr) = Inr u" "shape u = [max n1 n2, c]"
    and eu: "\<forall>b<max n1 n2. \<forall>ch<c. elem u [b, ch]
           = (if (\<Sum>y<H. \<Sum>x<H. weight_at dr img1 img2 b ch y x) = 0 then None
              else Some ((\<Sum>y<H. \<Sum>x<H. ssim_at dr img1 img2 b ch y x * weight_at dr img1 img2 b ch y x)
                         / (\<Sum>y<H. \<Sum>x<H. weight_at dr img1 img2 b ch y x)))"
    unfolding H_def by blast
  have mean: "- 1 \<le> (\<Sum>y<H. \<Sum>x<H. ssim_at dr img1 img2 b ch y x) / real (H * H)
            \<and> (\<Sum>y<H. \<Sum>x<H. ssim_at dr img1 img2 b ch y x) / real (H * H) \<le> 1" for b ch
    using Hpos sum2_abs_bound [of H H "\<lambda>y x. ssim_at dr img1 img2 b ch y x", OF eb]
    by (intro ratio_bound2) simp_all
  have wmean: "- 1 \<le> (\<Sum>y<H. \<Sum>x<H. ssim_at dr img1 img2 b ch y x * weight_at dr img1 img2 b ch y x)
                         / (\<Sum>y<H. \<Sum>x<H. weight_at dr img1 img2 b ch y x)
      \<and> (\<Sum>y<H. \<Sum>x<H. ssim_at dr img1 img2 b ch y x * weight_at dr img1 img2 b ch y x)
                         / (\<Sum>y<H. \<Sum>x<H. weight_at dr img1 img2 b ch y x) \<le> 1"
    if "(\<Sum>y<H. \<Sum>x<H. weight_at dr img1 img2 b ch y x) \<noteq> 0" for b ch
  proof (rule ratio_bound2)
    have "0 \<le> (\<Sum>y<H. \<Sum>x<H. weight_at dr img1 img2 b ch y x)"
      by (intro sum_nonneg wn)
    with that show "0 < (\<Sum>y<H. \<Sum>x<H. weight_at dr img1 img2 b ch y x)" by simp
    show "\<bar>\<Sum>y<H. \<Sum>x<H. ssim_at dr img1 img2 b ch y x * weight_at dr img1 img2 b ch y x\<bar>
            \<le> (\<Sum>y<H. \<Sum>x<H. weight_at dr img1 img2 b ch y x)"
      by (rule sum2_weighted_bound [OF eb wn])
  qed
  have "\<exists>v. elem t [b, ch] = Some v \<and> - 1 \<le> v \<and> v \<le> 1" if "b < max n1 n2" "ch < c" for b ch
    using et [rule_format, OF that] mean [of b ch] by simp
  moreover have "elem u [b, ch] = None \<or> (\<exists>v. elem u [b, ch] = Some v \<and> - 1 \<le> v \<and> v \<le> 1)"
    if "b < max n1 n2" "ch < c" for b ch
    using eu [rule_format, OF that] wmean [of b ch] by simp
  ultimately show ?thesis
    using t u by blast
qed

lemma ssim_at_same:
  assumes "dr \<noteq> 0" "0 < shape img ! 2" "0 < shape img ! 3"
  shows "ssim_at dr img img b ch y x = 1"
  unfolding ssim_at_def Let_def cov_at_same
  using assms by (intro ssim_val_same var_at_nonneg real_size_pos)

text \<open>
  What holds of an image and itself, over the real numbers.  For a 4d image without an
  empty dimension, of square spatial size, and a dynamic range of 1, 2 or 255:
  \<open>ssim(img, img, weighted=False)\<close> is 1 for every batch item and channel;
  \<open>ssim(img, img, weighted=True)\<close> is 1 where the weights do not sum to zero, and is not a
  finite number where they do.
\<close>

theorem ssim_identical:
  assumes s1: "shape img = [n, c, h, h]"
    and pos: "0 < n" "0 < c" "0 < h"
    and dr: "dr = 1 \<or> dr = 2 \<or> dr = 255"
  shows "\<exists>M C Wt t u. snd (ssim_parts img img dr) = Inr (M, C, Wt)
       \<and> snd (ssim img img False dr) = Inr t \<and> shape t = [n, c]
       \<and> (\<forall>b<n. \<forall>ch<c. elem t [b, ch] = Some 1)
       \<and> snd (ssim img img True dr) = Inr u \<and> shape u = [n, c]
       \<and> (\<forall>b<n. \<forall>ch<c. elem u [b, ch]
             = (if elem (fsum_last2 Wt) [b, ch] = Some 0 then None else Some 1))"
proof -
  define H where "H = h + 1 - real_size h h"
  have dr0: "dr \<noteq> 0" using dr by (rule valid_dr)
  have Hpos: "0 < H"
    using real_size_le(1) [of h h] by (simp add: H_def)
  have hp: "0 < shape img ! 2" "0 < shape img ! 3"
    using s1 pos by simp_all
  note one = ssim_at_same [OF dr0 hp]
  from ssim_char [OF s1 s1 pos(1) pos(1) pos(2) pos(3) _ dr0]
  obtain M C Wt t u where parts: "snd (ssim_parts img img dr) = Inr (M, C, Wt)"
    and hW: "has4 Wt n c H H (\<lambda>b ch y x. Some (weight_at dr img img b ch y x))"
    and t: "snd (ssim img img False dr) = Inr t" "shape t = [n, c]"
    and et: "\<forall>b<n. \<forall>ch<c. elem t [b, ch]
           = Some ((\<Sum>y<H. \<Sum>x<H. ssim_at dr img img b ch y x) / real (H * H))"
    and u: "snd (ssim img img True dr) = Inr u" "shape u = [n, c]"
    and eu: "\<forall>b<n. \<forall>ch<c. elem u [b, ch]
           = (if (\<Sum>y<H. \<Sum>x<H. weight_at dr img img b ch y x) = 0 then None
              else Some ((\<Sum>y<H. \<Sum>x<H. ssim_at dr img img b ch y x * weight_at dr img img b ch y x)
                         / (\<Sum>y<H. \<Sum>x<H. weight_at dr img img b ch y x)))"
    unfolding H_def by auto
  have "elem t [b, ch] = Some 1" if "b < n" "ch < c" for b ch
    using et [rule_format, OF that] Hpos by (simp add: one)
  moreover have "elem u [b, ch] = (if elem (fsum_last2 Wt) [b, ch] = Some 0 then None else Some 1)"
    if "b < n" "ch < c" for b ch
    using eu [rule_format, OF that] by (simp add: one fsum_last2_has4 [OF hW that])
  ultimately show ?thesis
    using parts t u by blast
qed

lemma mean_at_full: "0 < s \<Longrightarrow> mean_at s (full sh v) b ch y x = v"
  by (simp add: mean_at_def wavg_const)

lemma prod_at_full: "0 < s \<Longrightarrow> prod_at s (full sh v) (full sh' v') b b' ch y x = v * v'"
  by (simp add: prod_at_def wavg_const)

lemma var_at_full: "0 < s \<Longrightarrow> var_at s (full sh v) b ch y x = 0"
  by (simp add: var_at_def mean_at_full prod_at_full)

lemma cov_at_full: "0 < s \<Longrightarrow> cov_at s (full sh v) (full sh' v') b b' ch y x = 0"
  by (simp add: cov_at_def mean_at_full prod_at_full)

lemma ssim_at_full:
  assumes "0 < h" "0 < w"
  shows "ssim_at dr (full [n1, c, h, w] v1) (full sh v2) b ch y x = ssim_val dr v1 v2 0 0 0"
  using real_size_pos [OF assms]
  by (simp add: ssim_at_def Let_def mean_at_full var_at_full cov_at_full)

lemma weight_at_full:
  assumes "0 < h" "0 < w"
  shows "weight_at dr (full [n1, c, h, w] v1) (full sh v2) b ch y x
       = ln (real (h + 1 - real_size h w))"
  using real_size_pos [OF assms]
  by (simp add: weight_at_def Let_def var_at_full weight_val_def)

lemma ssim_parts_nonsquare:
  assumes s1: "shape img1 = [n1, c, h, w]" and s2: "shape img2 = [n2, c, h, w]"
    and pos: "0 < n1" "0 < n2" "0 < c" "0 < h" "0 < w"
    and compat: "n1 = n2 \<or> n1 = 1 \<or> n2 = 1" and ne: "h \<noteq> w"
  shows "snd (ssim_parts img1 img2 dr) = Inl MatmulShape"
  using ssim_maps_char [OF s1 s2 pos(1,2,3) real_size_pos [OF pos(4,5)] real_size_le compat, of dr]
    ssim_parts_maps [OF s1 s2 pos(1,2,3,3,4,5) compat, of dr] ne
  by simp

lemma ssim_unweighted_value:
  assumes s1: "shape img1 = [n1, c, h, h]" and s2: "shape img2 = [n2, c, h, h]"
    and pos: "0 < n1" "0 < n2" "0 < c" "0 < h"
    and compat: "n1 = n2 \<or> n1 = 1 \<or> n2 = 1"
    and dr: "dr \<noteq> 0" and r: "b < max n1 n2" "ch < c"
  shows "value_of (ssim img1 img2 False dr) [b, ch]
       = Some (Some ((\<Sum>y<h + 1 - real_size h h. \<Sum>x<h + 1 - real_size h h.
                        ssim_at dr img1 img2 b ch y x)
                     / real ((h + 1 - real_size h h) * (h + 1 - real_size h h))))"
proof -
  from ssim_char [OF s1 s2 pos compat dr]
  obtain t where "snd (ssim img1 img2 False dr) = Inr t"
    and "\<forall>b<max n1 n2. \<forall>ch<c. elem t [b, ch]
           = Some ((\<Sum>y<h + 1 - real_size h h. \<Sum>x<h + 1 - real_size h h.
                        ssim_at dr img1 img2 b ch y x)
                   / real ((h + 1 - real_size h h) * (h + 1 - real_size h h)))"
    by blast
  with r show ?thesis
    by (simp add: value_of_def)
qed

lemma ssim_weighted_value:
  assumes s1: "shape img1 = [n1, c, h, h]" and s2: "shape img2 = [n2, c, h, h]"
    and pos: "0 < n1" "0 < n2" "0 < c" "0 < h"
    and compat: "n1 = n2 \<or> n1 = 1 \<or> n2 = 1"
    and dr: "dr \<noteq> 0" and r: "b < max n1 n2" "ch < c"
  shows "value_of (ssim img1 img2 True dr) [b, ch]
       = Some (if (\<Sum>y<h + 1 - real_size h h. \<Sum>x<h + 1 - real_size h h.
                      weight_at dr img1 img2 b ch y x) = 0 then None
               else Some ((\<Sum>y<h + 1 - real_size h h. \<Sum>x<h + 1 - real_size h h.
                             ssim_at dr img1 img2 b ch y x * weight_at dr img1 img2 b ch y x)
                          / (\<Sum>y<h + 1 - real_size h h. \<Sum>x<h + 1 - real_size h h.
                               weight_at dr img1 img2 b ch y x)))"
proof -
  from ssim_char [OF s1 s2 pos compat dr]
  obtain u where "snd (ssim img1 img2 True dr) = Inr u"
    and "\<forall>b<max n1 n2. \<forall>ch<c. elem u [b, ch]
           = (if (\<Sum>y<h + 1 - real_size h h. \<Sum>x<h + 1 - real_size h h.
                      weight_at dr img1 img2 b ch y x) = 0 then None
               else Some ((\<Sum>y<h + 1 - real_size h h. \<Sum>x<h + 1 - real_size h h.
                             ssim_at dr img1 img2 b ch y x * weight_at dr img1 img2 b ch y x)
                          / (\<Sum>y<h + 1 - real_size h h. \<Sum>x<h + 1 - real_size h h.
                               weight_at dr img1 img2 b ch y x)))"
    by blast
  with r show ?thesis
    by (simp add: value_of_def)
qed

lemma ssim_parts_weight_value:
  assumes s1: "shape img1 = [n1, c, h, h]" and s2: "shape img2 = [n2, c, h, h]"
    and pos: "0 < n1" "0 < n2" "0 < c" "0 < h"
    and compat: "n1 = n2 \<or> n1 = 1 \<or> n2 = 1"
    and dr: "dr \<noteq> 0"
    and r: "b < max n1 n2" "ch < c" "y < h + 1 - real_size h h" "x < h + 1 - real_size h h"
  shows "\<exists>M C Wt. snd (ssim_parts img1 img2 dr) = Inr (M, C, Wt)
           \<and> elem Wt [b, ch, y, x] = Some (weight_at dr img1 img2 b ch y x)"
proof -
  from ssim_char [OF s1 s2 pos compat dr]
  obtain M C Wt where "snd (ssim_parts img1 img2 dr) = Inr (M, C, Wt)"
    and "has4 Wt (max n1 n2) c (h + 1 - real_size h h) (h + 1 - real_size h h)
           (\<lambda>b ch y x. Some (weight_at dr img1 img2 b ch y x))"
    by blast
  with r show ?thesis
    by (auto simp: has4_def)
qed

text \<open>
  Claim C3: for inputs whose values lie inside the range that \<open>dynamic_range\<close> declares,
  the value of \<open>ssim\<close> lies between 0 and 1, as the docstrings of \<open>ssim\<close> and \<open>ssim_map\<close>
  say.  The code returns a negative value: with a dynamic range of 2 the one-pixel images
  of value \<open>1\<close> and \<open>-1\<close> respect the declared range, and \<open>ssim\<close> returns \<open>-4999/5001\<close>.
\<close>

theorem ssim_negative:
  "value_of (ssim (full [1, 1, 1, 1] 1) (full [1, 1, 1, 1] (- 1)) False 2) [0, 0]
     = Some (Some (- (4999 / 5001)))"
proof -
  have "value_of (ssim (full [1, 1, 1, 1] 1) (full [1, 1, 1, 1] (- 1)) False 2) [0, 0]
      = Some (Some ((\<Sum>y<1 + 1 - real_size 1 1. \<Sum>x<1 + 1 - real_size 1 1.
                        ssim_at 2 (full [1, 1, 1, 1] 1) (full [1, 1, 1, 1] (- 1)) 0 0 y x)
                     / real ((1 + 1 - real_size 1 1) * (1 + 1 - real_size 1 1))))"
    by (rule ssim_unweighted_value [of _ 1 1 1 _ 1]) simp_all
  then show ?thesis
    by (simp add: real_size_def ssim_at_full ssim_val_def const1_def const2_def power2_eq_square)
qed

text \<open>
  Claim C2: \<open>ssim(img, img, weighted)\<close> is 1 for both settings of \<open>weighted\<close>, as the
  docstring of \<open>ssim\<close> says (1 means that the two images are identical).  With
  \<open>weighted=True\<close> the code divides by the sum of the weights: for the one-pixel image of
  value \<open>1/2\<close> the weight is \<open>log 1 = 0\<close>, the weighted mean is \<open>0/0\<close>, and the code returns a
  value that is not a finite number, where the claim gives 1.
\<close>

theorem ssim_weighted_constant_nan:
  "value_of (ssim (full [1, 1, 1, 1] (1 / 2)) (full [1, 1, 1, 1] (1 / 2)) True 1) [0, 0]
     = Some None"
proof -
  let ?a = "full [1, 1, 1, 1] (1 / 2 :: real)"
  have "value_of (ssim ?a ?a True 1) [0, 0]
       = Some (if (\<Sum>y<1 + 1 - real_size 1 1. \<Sum>x<1 + 1 - real_size 1 1.
                      weight_at 1 ?a ?a 0 0 y x) = 0 then None
               else Some ((\<Sum>y<1 + 1 - real_size 1 1. \<Sum>x<1 + 1 - real_size 1 1.
                             ssim_at 1 ?a ?a 0 0 y x * weight_at 1 ?a ?a 0 0 y x)
                          / (\<Sum>y<1 + 1 - real_size 1 1. \<Sum>x<1 + 1 - real_size 1 1.
                               weight_at 1 ?a ?a 0 0 y x)))"
    by (rule ssim_weighted_value [of _ 1 1 1 _ 1]) simp_all
  then show ?thesis
    by (simp add: real_size_def weight_at_full)
qed

text \<open>
  Claim C1: the weight map is the logarithm of the elementwise product
  \<open>(1 + var1/C2) (1 + var2/C2)\<close>.  The code takes the matrix product of the two maps
  (\<open>torch.matmul\<close>).  On an image of 1 by 2 pixels the maps are not square and
  \<open>_ssim_parts\<close> raises.  On the image of 12 by 12 zeros the maps are 2 by 2, both variances
  are zero, the elementwise product is 1 and its logarithm is 0 (\<open>weight_spec\<close>), and the code
  gives the weight \<open>log 2\<close>.
\<close>

theorem weight_is_matrix_product:
  "snd (ssim_parts (full [1, 1, 1, 2] 0) (full [1, 1, 1, 2] 0) 1) = Inl MatmulShape
   \<and> (\<exists>M C Wt. snd (ssim_parts (full [1, 1, 12, 12] 0) (full [1, 1, 12, 12] 0) 1) = Inr (M, C, Wt)
        \<and> elem Wt [0, 0, 0, 0] = Some (ln 2)
        \<and> weight_spec 1 (var_at 11 (full [1, 1, 12, 12] 0) 0 0 0 0)
                        (var_at 11 (full [1, 1, 12, 12] 0) 0 0 0 0) = Some 0
        \<and> ln 2 \<noteq> (0::real))"
proof
  show "snd (ssim_parts (full [1, 1, 1, 2] 0) (full [1, 1, 1, 2] 0) 1) = Inl MatmulShape"
    by (rule ssim_parts_nonsquare [of _ 1 1 1 2 _ 1]) simp_all
next
  let ?z = "full [1, 1, 12, 12] (0::real)"
  have H: "12 + 1 - real_size 12 12 = 2"
    by (simp add: real_size_def)
  from ssim_parts_weight_value [of ?z 1 1 12 ?z 1 1 0 0 0 0]
  obtain M C Wt where parts: "snd (ssim_parts ?z ?z 1) = Inr (M, C, Wt)"
    and "elem Wt [0, 0, 0, 0] = Some (weight_at 1 ?z ?z 0 0 0 0)"
    unfolding H by auto
  then have w: "elem Wt [0, 0, 0, 0] = Some (ln 2)"
    by (simp add: weight_at_full real_size_def)
  have sp: "weight_spec 1 (var_at 11 ?z 0 0 0 0) (var_at 11 ?z 0 0 0 0) = Some 0"
    by (simp add: weight_spec_def var_at_full)
  have "ln 2 \<noteq> (0::real)" by simp
  with parts w sp show "\<exists>M C Wt. snd (ssim_parts ?z ?z 1) = Inr (M, C, Wt)
        \<and> elem Wt [0, 0, 0, 0] = Some (ln 2)
        \<and> weight_spec 1 (var_at 11 ?z 0 0 0 0) (var_at 11 ?z 0 0 0 0) = Some 0
        \<and> ln 2 \<noteq> (0::real)"
    by blast
qed

theorem ssim_bounded_witness:
  "shape (full [2, 1, 3, 3] (0::real)) = [2, 1, 3, 3]
   \<and> shape (full [1, 1, 3, 3] (1::real)) = [1, 1, 3, 3]
   \<and> (0::nat) < 2 \<and> (0::nat) < 1 \<and> (0::nat) < 3
   \<and> ((2::nat) = 1 \<or> (2::nat) = 1 \<or> (1::nat) = 1)
   \<and> ((1::int) = 1 \<or> (1::int) = 2 \<or> (1::int) = 255)
   \<and> (\<exists>t. snd (ssim (full [2, 1, 3, 3] 0) (full [1, 1, 3, 3] 1) False 1) = Inr t
          \<and> shape t = [2, 1]
          \<and> (\<exists>v. elem t [1, 0] = Some v \<and> - 1 \<le> v \<and> v \<le> 1))
   \<and> (\<exists>u. snd (ssim (full [2, 1, 3, 3] 0) (full [1, 1, 3, 3] 1) True 1) = Inr u
          \<and> shape u = [2, 1]
          \<and> (elem u [1, 0] = None \<or> (\<exists>v. elem u [1, 0] = Some v \<and> - 1 \<le> v \<and> v \<le> 1)))"
proof -
  have h: "shape (full [2, 1, 3, 3] (0::real)) = [2, 1, 3, 3]"
    "shape (full [1, 1, 3, 3] (1::real)) = [1, 1, 3, 3]"
    "(0::nat) < 2" "(0::nat) < 1" "(0::nat) < 1" "(0::nat) < 3"
    "(2::nat) = 1 \<or> (2::nat) = 1 \<or> (1::nat) = 1"
    "(1::int) = 1 \<or> (1::int) = 2 \<or> (1::int) = 255"
    by simp_all
  from ssim_bounded [OF h]
  obtain t u where t: "snd (ssim (full [2, 1, 3, 3] 0) (full [1, 1, 3, 3] 1) False 1) = Inr t"
      "shape t = [max 2 1, 1]"
      "\<forall>b<max 2 1. \<forall>ch<1. \<exists>v. elem t [b, ch] = Some v \<and> - 1 \<le> v \<and> v \<le> 1"
    and u: "snd (ssim (full [2, 1, 3, 3] 0) (full [1, 1, 3, 3] 1) True 1) = Inr u"
      "shape u = [max 2 1, 1]"
      "\<forall>b<max 2 1. \<forall>ch<1. elem u [b, ch] = None
          \<or> (\<exists>v. elem u [b, ch] = Some v \<and> - 1 \<le> v \<and> v \<le> 1)"
    by blast
  have "\<exists>v. elem t [1, 0] = Some v \<and> - 1 \<le> v \<and> v \<le> 1"
    using t(3) [rule_format, of 1 0] by simp
  moreover have "elem u [1, 0] = None \<or> (\<exists>v. elem u [1, 0] = Some v \<and> - 1 \<le> v \<and> v \<le> 1)"
    using u(3) [rule_format, of 1 0] by simp
  moreover have "shape t = [2, 1]" "shape u = [2, 1]"
    using t(2) u(2) by simp_all
  ultimately show ?thesis
    using h t(1) u(1) by blast
qed

theorem ssim_identical_witness:
  "shape (full [1, 1, 12, 12] (0::real)) = [1, 1, 12, 12]
   \<and> (0::nat) < 1 \<and> (0::nat) < 12
   \<and> ((1::int) = 1 \<or> (1::int) = 2 \<or> (1::int) = 255)
   \<and> (\<exists>M C Wt t u.
         snd (ssim_parts (full [1, 1, 12, 12] 0) (full [1, 1, 12, 12] 0) 1) = Inr (M, C, Wt)
       \<and> snd (ssim (full [1, 1, 12, 12] 0) (full [1, 1, 12, 12] 0) False 1) = Inr t
       \<and> shape t = [1, 1] \<and> elem t [0, 0] = Some 1
       \<and> snd (ssim (full [1, 1, 12, 12] 0) (full [1, 1, 12, 12] 0) True 1) = Inr u
       \<and> shape u = [1, 1]
       \<and> elem u [0, 0] = (if elem (fsum_last2 Wt) [0, 0] = Some 0 then None else Some 1))"
proof -
  let ?z = "full [1, 1, 12, 12] (0::real)"
  have h: "shape ?z = [1, 1, 12, 12]" "(0::nat) < 1" "(0::nat) < 1" "(0::nat) < 12"
    "(1::int) = 1 \<or> (1::int) = 2 \<or> (1::int) = 255"
    by simp_all
  from ssim_identical [OF h]
  obtain M C Wt t u where parts: "snd (ssim_parts ?z ?z 1) = Inr (M, C, Wt)"
    and t: "snd (ssim ?z ?z False 1) = Inr t" "shape t = [1, 1]"
      "\<forall>b<1. \<forall>ch<1. elem t [b, ch] = Some 1"
    and u: "snd (ssim ?z ?z True 1) = Inr u" "shape u = [1, 1]"
      "\<forall>b<1. \<forall>ch<1. elem u [b, ch]
             = (if elem (fsum_last2 Wt) [b, ch] = Some 0 then None else Some 1)"
    by (elim exE conjE)
  have et: "elem t [0, 0] = Some 1"
    using t(3) [rule_format, of 0 0] by simp
  have eu: "elem u [0, 0] = (if elem (fsum_last2 Wt) [0, 0] = Some 0 then None else Some 1)"
    using u(3) [rule_format, of 0 0] by simp
  show ?thesis
    apply (intro conjI h)
    apply (rule exI [of _ M], rule exI [of _ C], rule exI [of _ Wt], rule exI [of _ t],
        rule exI [of _ u])
    apply (intro conjI parts t(1,2) et u(1,2) eu)
    done
qed

lemma range_warning_commute: "range_warning dr a b = range_warning dr b a"
  by (simp add: range_warning_def Let_def)

lemma tbin_commute:
  assumes "\<And>x y. f x y = f y x" "shape a = shape b"
  shows "tbin f a b = tbin f b a"
proof -
  have "(\<lambda>ix. f (elem a (bindex (shape b) ix)) (elem b (bindex (shape b) ix)))
      = (\<lambda>ix. f (elem b (bindex (shape b) ix)) (elem a (bindex (shape b) ix)))"
    by (rule ext) (rule assms(1))
  then show ?thesis
    by (simp add: tbin_def assms(2))
qed

lemma fl_commute: "fmul x y = fmul y x" "fadd x y = fadd y x"
  by (simp_all add: fmul_def fadd_def mult.commute add.commute split: option.splits)

lemma conv2d_same_shape:
  assumes "shape a = shape b"
  shows "(conv2d a w p g = Inl ConvShape \<and> conv2d b w p g = Inl ConvShape)
       \<or> (\<exists>A B. conv2d a w p g = Inr A \<and> conv2d b w p g = Inr B \<and> shape A = shape B)"
  using assms by (auto simp: conv2d_def split: list.splits)

lemma matmul_same_shape:
  assumes "shape a = shape b"
  shows "(matmul a b = Inl MatmulShape \<and> matmul b a = Inl MatmulShape)
       \<or> (\<exists>P Q. matmul a b = Inr P \<and> matmul b a = Inr Q)"
  using assms by (auto simp: matmul_def split: list.splits)

lemma ssim_maps_swap:
  assumes sh: "shape img1 = shape img2"
  shows "(\<exists>e. ssim_maps img1 img2 w c dr = Inl e \<and> ssim_maps img2 img1 w c dr = Inl e)
       \<or> (\<exists>M C W1 W2. ssim_maps img1 img2 w c dr = Inr (M, C, W1)
                      \<and> ssim_maps img2 img1 w c dr = Inr (M, C, W2))"
proof -
  let ?C2 = "Some (((3 / 100) * real_of_int dr) ^ 2)"
  have p12: "tbin (*) img2 img1 = tbin (*) img1 img2"
    by (rule tbin_commute) (simp_all add: sh mult.commute)
  have shp: "shape (tbin (*) img1 img1) = shape (tbin (*) img2 img2)"
    by (simp add: tbin_def sh)
  from conv2d_same_shape [OF sh, of w 0 c]
  consider "conv2d img1 w 0 c = Inl ConvShape" "conv2d img2 w 0 c = Inl ConvShape"
    | mu1 mu2 where "conv2d img1 w 0 c = Inr mu1" "conv2d img2 w 0 c = Inr mu2"
        "shape mu1 = shape mu2"
    by blast
  then show ?thesis
  proof cases
    case 1
    then show ?thesis by (simp add: ssim_maps_def)
  next
    case mu: 2
    from conv2d_same_shape [OF shp, of w 0 c]
    consider "conv2d (tbin (*) img1 img1) w 0 c = Inl ConvShape"
        "conv2d (tbin (*) img2 img2) w 0 c = Inl ConvShape"
      | m11 m22 where "conv2d (tbin (*) img1 img1) w 0 c = Inr m11"
          "conv2d (tbin (*) img2 img2) w 0 c = Inr m22" "shape m11 = shape m22"
      by blast
    then show ?thesis
    proof cases
      case 1
      then show ?thesis by (simp add: ssim_maps_def mu Let_def)
    next
      case m: 2
      show ?thesis
      proof (cases "conv2d (tbin (*) img1 img2) w 0 c")
        case (Inl e)
        then show ?thesis by (simp add: ssim_maps_def mu m p12 Let_def)
      next
        case (Inr m12)
        let ?sq1 = "tmap (\<lambda>v. fmul v v) mu1" and ?sq2 = "tmap (\<lambda>v. fmul v v) mu2"
        let ?s1 = "tbin fsub m11 ?sq1" and ?s2 = "tbin fsub m22 ?sq2"
        let ?f1 = "tmap (\<lambda>v. fadd (Some 1) (fdiv v ?C2)) ?s1"
        let ?f2 = "tmap (\<lambda>v. fadd (Some 1) (fdiv v ?C2)) ?s2"
        have e1: "tbin fmul mu2 mu1 = tbin fmul mu1 mu2"
          by (rule tbin_commute) (simp_all add: mu(3) fl_commute(1))
        have e2: "tbin fadd ?sq2 ?sq1 = tbin fadd ?sq1 ?sq2"
          by (rule tbin_commute) (simp_all add: mu(3) fl_commute(2) tmap_def)
        have shs: "shape ?s1 = shape ?s2"
          by (simp add: tbin_def tmap_def mu(3) m(3))
        have e3: "tbin fadd ?s2 ?s1 = tbin fadd ?s1 ?s2"
          by (rule tbin_commute) (simp_all add: shs fl_commute(2))
        have shf: "shape ?f1 = shape ?f2"
          using shs by (simp add: tmap_def)
        from matmul_same_shape [OF shf]
        consider "matmul ?f1 ?f2 = Inl MatmulShape" "matmul ?f2 ?f1 = Inl MatmulShape"
          | P Q where "matmul ?f1 ?f2 = Inr P" "matmul ?f2 ?f1 = Inr Q"
          by blast
        then show ?thesis
        proof cases
          case 1
          have "ssim_maps img1 img2 w c dr = Inl MatmulShape"
            unfolding ssim_maps_def mu(1,2) m(1,2) Inr Let_def sum.case 1(1) by (rule refl)
          moreover have "ssim_maps img2 img1 w c dr = Inl MatmulShape"
            unfolding ssim_maps_def mu(1,2) m(1,2) p12 Inr Let_def sum.case 1(2) by (rule refl)
          ultimately show ?thesis by simp
        next
          case 2
          have a: "ssim_maps img1 img2 w c dr = Inr
             (tbin fmul
                (tbin fdiv (tmap (\<lambda>v. fadd (fmul (Some 2) v) (Some (((1 / 100) * real_of_int dr) ^ 2)))
                              (tbin fmul mu1 mu2))
                           (tmap (\<lambda>v. fadd v (Some (((1 / 100) * real_of_int dr) ^ 2)))
                              (tbin fadd ?sq1 ?sq2)))
                (tbin fdiv (tmap (\<lambda>v. fadd (fmul (Some 2) v) ?C2) (tbin fsub m12 (tbin fmul mu1 mu2)))
                           (tmap (\<lambda>v. fadd v ?C2) (tbin fadd ?s1 ?s2))),
              tbin fdiv (tmap (\<lambda>v. fadd (fmul (Some 2) v) ?C2) (tbin fsub m12 (tbin fmul mu1 mu2)))
                        (tmap (\<lambda>v. fadd v ?C2) (tbin fadd ?s1 ?s2)),
              tmap flog P)"
            unfolding ssim_maps_def mu(1,2) m(1,2) Inr Let_def sum.case 2(1) by (rule refl)
          have b: "ssim_maps img2 img1 w c dr = Inr
             (tbin fmul
                (tbin fdiv (tmap (\<lambda>v. fadd (fmul (Some 2) v) (Some (((1 / 100) * real_of_int dr) ^ 2)))
                              (tbin fmul mu1 mu2))
                           (tmap (\<lambda>v. fadd v (Some (((1 / 100) * real_of_int dr) ^ 2)))
                              (tbin fadd ?sq1 ?sq2)))
                (tbin fdiv (tmap (\<lambda>v. fadd (fmul (Some 2) v) ?C2) (tbin fsub m12 (tbin fmul mu1 mu2)))
                           (tmap (\<lambda>v. fadd v ?C2) (tbin fadd ?s1 ?s2))),
              tbin fdiv (tmap (\<lambda>v. fadd (fmul (Some 2) v) ?C2) (tbin fsub m12 (tbin fmul mu1 mu2)))
                        (tmap (\<lambda>v. fadd v ?C2) (tbin fadd ?s1 ?s2)),
              tmap flog Q)"
            unfolding ssim_maps_def mu(1,2) m(1,2) p12 Inr Let_def sum.case 2(2) e1 e2 e3
            by (rule refl)
          from a b show ?thesis by blast
        qed
      qed
    qed
  qed
qed

lemma ssim_parts_4d:
  assumes "shape img1 = [n, c, h, w]" "shape img2 = [n, c, h, w]"
  shows "ssim_parts img1 img2 dr =
     (if n * (c * (h * w)) = 0 then ([], Inl EmptyMinMax)
      else (range_warning dr img1 img2 @ (if 1 < c then [MultiChannelWarning] else [])
              @ fst (check_window (create_window (real_size h w) c)),
            case snd (check_window (create_window (real_size h w) c)) of
              Inl e \<Rightarrow> Inl e
            | Inr window \<Rightarrow> ssim_maps img1 img2 window c dr))"
  using assms
  by (simp add: ssim_parts_def numel_def Let_def split: prod.splits sum.splits)

lemma ssim_parts_not_4d:
  assumes "shape img1 = shape img2" "\<nexists>n c h w. shape img2 = [n, c, h, w]"
  shows "ssim_parts img1 img2 dr =
     (if numel img2 = 0 then ([], Inl EmptyMinMax)
      else (range_warning dr img1 img2, Inl UnpackShape))"
  using assms
  by (auto simp: ssim_parts_def numel_def Let_def split: list.splits)

lemma ssim_parts_fst_swap:
  assumes sh: "shape img1 = shape img2"
  shows "fst (ssim_parts img1 img2 dr) = fst (ssim_parts img2 img1 dr)"
proof (cases "\<exists>n c h w. shape img2 = [n, c, h, w]")
  case True
  then obtain n c h w where s2: "shape img2 = [n, c, h, w]" by blast
  with sh have s1: "shape img1 = [n, c, h, w]" by simp
  show ?thesis
    by (simp add: ssim_parts_4d [OF s1 s2] ssim_parts_4d [OF s2 s1] range_warning_commute)
next
  case False
  then have f1: "\<nexists>n c h w. shape img1 = [n, c, h, w]" using sh by simp
  show ?thesis
    by (simp add: ssim_parts_not_4d [OF sh False] ssim_parts_not_4d [OF sh [symmetric] f1]
        range_warning_commute numel_def sh)
qed

lemma ssim_parts_snd_swap:
  assumes sh: "shape img1 = shape img2"
  shows "(\<exists>e. snd (ssim_parts img1 img2 dr) = Inl e \<and> snd (ssim_parts img2 img1 dr) = Inl e)
       \<or> (\<exists>M C W1 W2. snd (ssim_parts img1 img2 dr) = Inr (M, C, W1)
                      \<and> snd (ssim_parts img2 img1 dr) = Inr (M, C, W2))"
proof (cases "\<exists>n c h w. shape img2 = [n, c, h, w]")
  case True
  then obtain n c h w where s2: "shape img2 = [n, c, h, w]" by blast
  with sh have s1: "shape img1 = [n, c, h, w]" by simp
  show ?thesis
  proof (cases "snd (check_window (create_window (real_size h w) c))")
    case (Inl e)
    then show ?thesis
      by (simp add: ssim_parts_4d [OF s1 s2] ssim_parts_4d [OF s2 s1])
  next
    case (Inr window)
    with ssim_maps_swap [OF sh, of window c dr] show ?thesis
      by (simp add: ssim_parts_4d [OF s1 s2] ssim_parts_4d [OF s2 s1])
  qed
next
  case False
  then have f1: "\<nexists>n c h w. shape img1 = [n, c, h, w]" using sh by simp
  show ?thesis
    by (simp add: ssim_parts_not_4d [OF sh False] ssim_parts_not_4d [OF sh [symmetric] f1]
        numel_def sh)
qed

lemma ssim_alt:
  "ssim img1 img2 weighted dr =
     (fst (ssim_parts img1 img2 dr),
      case snd (ssim_parts img1 img2 dr) of
        Inl e \<Rightarrow> Inl e
      | Inr (map_ssim, contrast, weight) \<Rightarrow>
          Inr (if \<not> weighted then fmean_last2 map_ssim
               else tbin fdiv (fsum_last2 (tbin fmul map_ssim weight)) (fsum_last2 weight)))"
  by (simp add: ssim_def split: prod.splits sum.splits)

text \<open>
  Claim C10: unweighted SSIM is symmetric.  For two tensors of the same shape and every
  dynamic range, \<open>ssim(img1, img2, weighted=False)\<close> and \<open>ssim(img2, img1, weighted=False)\<close>
  give the same warnings and the same result, or raise the same exception.
\<close>

theorem ssim_symmetric:
  assumes "shape img1 = shape img2"
  shows "ssim img1 img2 False dr = ssim img2 img1 False dr"
  using ssim_parts_fst_swap [OF assms, of dr] ssim_parts_snd_swap [OF assms, of dr]
  by (auto simp: ssim_alt)

theorem ssim_symmetric_witness:
  "shape (full [1, 1, 3, 3] (0::real)) = shape (full [1, 1, 3, 3] (1::real))
   \<and> ssim (full [1, 1, 3, 3] 0) (full [1, 1, 3, 3] 1) False 1
     = ssim (full [1, 1, 3, 3] 1) (full [1, 1, 3, 3] 0) False 1"
proof -
  have h: "shape (full [1, 1, 3, 3] (0::real)) = shape (full [1, 1, 3, 3] (1::real))"
    by simp
  from h ssim_symmetric [OF h, of 1] show ?thesis
    by (intro conjI)
qed

lemma entries_1111:
  "shape t = [1, 1] \<Longrightarrow> entries t = [elem t [0, 0]]"
  by (simp add: entries_def)


lemma check_window_above_one:
  "\<exists>w. check_window (full [1, 1, 1, 1] 2) = ([WindowSumWarning], Inr w)
       \<and> shape w = [1, 1, 1, 1] \<and> elem w [0, 0, 0, 0] = Some 1"
proof -
  let ?w = "full [1, 1, 1, 1] (2 :: real)"
  have sh: "shape (sum_last2 ?w) = [1, 1]"
    by (simp add: sum_last2_def Let_def ndim_def)
  have "entries (sum_last2 ?w) = [2]"
    unfolding entries_1111 [OF sh] by (simp add: sum_last2_def Let_def ndim_def)
  then show ?thesis
    by (simp add: check_window_def ndim_def tbin_def bshape_def bindex_def
        sum_last2_keepdim_def Let_def)
qed






section \<open>Properties of the normalized Laplacian pyramid distance\<close>

lemma collect_all:
  assumes "\<And>i. i \<in> set js \<Longrightarrow> f i = Inr (g i)"
  shows "collect f js = Inr (map g js)"
  using assms by (induction js) simp_all

lemma collect_cong:
  assumes "\<And>i. i \<in> set js \<Longrightarrow> f i = g i"
  shows "collect f js = collect g js"
  using assms by (induction js) (simp_all split: sum.splits)

lemma nlp_scale_char:
  assumes k: "k < length laps" "k < length F" "k < length S"
    and lap: "shape (laps ! k) = [n, 1, hk, wk]" and pos: "0 < hk" "0 < wk"
    and filt: "shape (F ! k) = [5, 5]"
  shows "\<exists>Y. nlp_scale laps F S 1 k = Inr Y \<and> shape Y = [n, 1, hk, wk]
           \<and> (\<forall>b<n. \<forall>y<hk. \<forall>x<wk. elem Y [b, 0, y, x]
                 = fdiv (Some (elem (laps ! k) [b, 0, y, x]))
                        (Some (S ! k + pooled (F ! k) (laps ! k) b y x)))"
proof -
  let ?lap = "laps ! k"
  let ?w = "tmap Some (unsqueeze 0 (unsqueeze 0 (F ! k)))"
  define T :: "fl tensor" where "T = \<lparr>shape = [n, 1, hk, wk],
      elem = \<lambda>ix. fsum 1 (\<lambda>ci. fsum 5 (\<lambda>i. fsum 5 (\<lambda>j.
         fmul (Some (padded (tmap abs ?lap) 2
                       [ix ! 0, (ix ! 1 div (1 div 1)) * 1 + ci, ix ! 2 + i, ix ! 3 + j]))
              (elem ?w [ix ! 1, ci, i, j]))))\<rparr>"
  have shw: "shape ?w = [1, 1, 5, 5]"
    by (simp add: tmap_def unsqueeze_def filt)
  have c: "conv2d (tmap abs ?lap) ?w 2 1 = Inr T"
    unfolding conv2d_def shw using pos by (simp add: tmap_def lap T_def)
  have eT: "elem T [b, 0, y, x] = Some (pooled (F ! k) ?lap b y x)" for b y x
  proof -
    have row: "fsum 5 (\<lambda>j. fmul (Some (padded (tmap abs ?lap) 2 [b, 0, y + i, x + j]))
                  (elem ?w [0, 0, i, j]))
             = Some (\<Sum>j<5. padded (tmap abs ?lap) 2 [b, 0, y + i, x + j] * elem (F ! k) [i, j])"
      for i
      by (rule fsum_Some) (simp add: tmap_def unsqueeze_def)
    have rows: "fsum 5 (\<lambda>i. fsum 5 (\<lambda>j. fmul (Some (padded (tmap abs ?lap) 2 [b, 0, y + i, x + j]))
                  (elem ?w [0, 0, i, j])))
             = Some (pooled (F ! k) ?lap b y x)"
      unfolding pooled_def by (rule fsum_Some) (rule row)
    have "elem T [b, 0, y, x]
        = fsum 1 (\<lambda>ci. fsum 5 (\<lambda>i. fsum 5 (\<lambda>j.
            fmul (Some (padded (tmap abs ?lap) 2 [b, ci, y + i, x + j]))
              (elem ?w [0, ci, i, j]))))"
      by (simp add: T_def)
    also have "\<dots> = Some (\<Sum>ci::nat<1. pooled (F ! k) ?lap b y x)"
    proof (rule fsum_Some)
      fix ci :: nat assume "ci < 1"
      then have "ci = 0" by simp
      then show "fsum 5 (\<lambda>i. fsum 5 (\<lambda>j.
            fmul (Some (padded (tmap abs ?lap) 2 [b, ci, y + i, x + j]))
              (elem ?w [0, ci, i, j]))) = Some (pooled (F ! k) ?lap b y x)"
        using rows by simp
    qed
    finally show ?thesis by simp
  qed
  let ?Y = "tbin fdiv (tmap Some ?lap) (tmap (\<lambda>v. fadd (Some (S ! k)) v) T)"
  have shT: "shape T = [n, 1, hk, wk]" by (simp add: T_def)
  have res: "nlp_scale laps F S 1 k = Inr ?Y"
    using k unfolding nlp_scale_def Let_def c by (simp add: shT lap bcast_ok_def)
  have shY: "shape ?Y = [n, 1, hk, wk]"
    by (simp add: tbin_def tmap_def bshape_def lap shT)
  have eY: "elem ?Y [b, 0, y, x]
      = fdiv (Some (elem ?lap [b, 0, y, x])) (Some (S ! k + pooled (F ! k) ?lap b y x))"
    if "b < n" "y < hk" "x < wk" for b y x
  proof -
    have "bindex [n, 1, hk, wk] [b, 0, y, x] = [bi n b, 0, y, x]"
      using that by (intro bindex4) simp_all
    moreover have "bi n b = b" using that(1) by (rule bi_id)
    ultimately show ?thesis
      by (simp add: tbin_def tmap_def lap shT eT)
  qed
  from res shY eY show ?thesis by blast
qed

lemma indices_Cons_mem:
  "ix \<in> set (indices (n # ns)) \<longleftrightarrow> (\<exists>i t. ix = i # t \<and> i < n \<and> t \<in> set (indices ns))"
  by force

lemma indices_Nil_mem: "ix \<in> set (indices []) \<longleftrightarrow> ix = []"
  by simp

lemma indices_three:
  "set (indices [c, h, w]) = {[a, b, d] | a b d. a < c \<and> b < h \<and> d < w}"
  unfolding set_eq_iff indices_Cons_mem indices_Nil_mem by blast

lemma length_indices: "length (indices s) = prod_list s"
  by (induction s) (simp_all add: length_concat comp_def sum_list_triv)

lemma sqrt_epsilon: "sqrt epsilon = 1 / 10 ^ 5"
  by (rule real_sqrt_unique) (simp_all add: epsilon_def power2_eq_square)

lemma mean_all_zero:
  assumes "\<And>ix. ix \<in> set (indices (shape t)) \<Longrightarrow> elem t ix = Some 0" "0 < numel t"
  shows "mean_all t = Some 0"
proof -
  have "foldr (\<lambda>ix acc. fadd (elem t ix) acc) (indices (shape t)) (Some 0)
      = Some (sum_list (map (\<lambda>ix. 0) (indices (shape t))))"
    by (rule foldr_fadd_Some) (rule assms(1))
  then show ?thesis
    using assms(2) by (simp add: mean_all_def)
qed

lemma nlpd_scale_equal:
  assumes i: "i < length y" and sh: "shape (y ! i) = [n, 1, hk, wk]"
    and pos: "2 \<le> n" "0 < hk" "0 < wk"
    and eq: "\<And>r q. r < hk \<Longrightarrow> q < wk \<Longrightarrow>
               \<exists>v. elem (y ! i) [0, 0, r, q] = Some v \<and> elem (y ! i) [1, 0, r, q] = Some v"
  shows "nlpd_scale y i = Inr (Some (1 / 10 ^ 5))"
proof -
  let ?y0 = "\<lparr>shape = tl (shape (y ! i)), elem = \<lambda>ix. elem (y ! i) (0 # ix)\<rparr>"
  let ?y1 = "\<lparr>shape = tl (shape (y ! i)), elem = \<lambda>ix. elem (y ! i) (1 # ix)\<rparr>"
  let ?D = "tmap (\<lambda>v. fmul v v) (tbin fsub ?y0 ?y1)"
  have s0: "select0 (y ! i) 0 = Inr ?y0" and s1: "select0 (y ! i) 1 = Inr ?y1"
    using pos(1) by (simp_all add: select0_def sh)
  have shD: "shape ?D = [1, hk, wk]"
    by (simp add: tmap_def tbin_def bshape_def sh)
  have zero: "elem ?D ix = Some 0" if "ix \<in> set (indices (shape ?D))" for ix
  proof -
    from that obtain r q where ix: "ix = [0, r, q]" and rq: "r < hk" "q < wk"
      unfolding shD indices_three by auto
    have b: "bindex [Suc 0, hk, wk] [0, r, q] = [0, r, q]"
      using rq by (auto simp: bindex_def)
    from eq [OF rq] obtain v where "elem (y ! i) [0, 0, r, q] = Some v"
      "elem (y ! i) [1, 0, r, q] = Some v" by blast
    then show ?thesis
      by (simp add: tmap_def tbin_def sh ix b)
  qed
  have "0 < numel ?D"
    using pos unfolding numel_def shD by simp
  with zero have "mean_all ?D = Some 0"
    by (intro mean_all_zero)
  then have "fsqrt (fadd (mean_all ?D) (Some epsilon)) = Some (1 / 10 ^ 5)"
    by (simp add: sqrt_epsilon) (simp add: epsilon_def)
  then show ?thesis
    using i unfolding nlpd_scale_def s0 s1 by simp
qed

lemma foldr_fadd_const:
  "foldr fadd (map (\<lambda>i. Some c) js) (Some 0) = Some (real (length js) * c)"
  by (induction js) (simp_all add: algebra_simps)

lemma cat0_self:
  assumes "shape img = [n, c, h, w]"
  shows "\<exists>im. cat0 img img = Inr im \<and> shape im = [n + n, c, h, w]"
  using assms by (simp add: cat0_def)

text \<open>
  Claim C7, for a single image.  The Laplacian pyramid, the pooling filters and the sigmas
  are not part of the sources: they are the parameters \<open>A\<close>, \<open>F\<close> and \<open>S\<close>.  Let \<open>img\<close> be
  one single-channel image (shape \<open>(1, 1, h, w)\<close>, as the docstring of \<open>nlpd\<close> asks), and let
  the pyramid work on every item of a batch on its own: for the batch made of \<open>img\<close> twice
  it gives six non-empty single-channel subbands of two items, and what it gives for an
  item is a function \<open>P\<close> of that item alone.  With non-negative 5x5 filters and positive
  sigmas, every one of the six differences is zero everywhere, every term is
  \<open>sqrt 1e-10 = 1e-5\<close>, and \<open>nlpd img img\<close> returns \<open>1e-5\<close>.
\<close>

theorem nlpd_identical:
  assumes img: "shape img = [1, 1, h, w]" and cat: "cat0 img img = Inr im"
    and subbands: "length (A im) = 6"
      "\<forall>k<6. \<exists>hk wk. shape (A im ! k) = [2, 1, hk, wk] \<and> 0 < hk \<and> 0 < wk"
    and itemwise: "\<forall>k<6. \<forall>b<2. \<forall>r q.
        elem (A im ! k) [b, 0, r, q] = P k (\<lambda>ix. elem im (b # ix)) r q"
    and filters: "length F = 6"
      "\<forall>k<6. shape (F ! k) = [5, 5] \<and> (\<forall>i<5. \<forall>j<5. 0 \<le> elem (F ! k) [i, j])"
    and sigmas: "length S = 6" "\<forall>k<6. 0 < S ! k"
  shows "nlpd A F S img img = Inr (Some (1 / 10 ^ 5))"
proof -
  have shim: "shape im = [2, 1, h, w]"
    using cat img by (auto simp: cat0_def)
  have items: "(\<lambda>ix. elem im (0 # ix)) = (\<lambda>ix. elem im (1 # ix))"
    using cat img by (auto simp: cat0_def fun_eq_iff)
  have scale: "\<exists>Y. nlp_scale (A im) F S 1 k = Inr Y
      \<and> (\<exists>hk wk. shape Y = [2, 1, hk, wk] \<and> 0 < hk \<and> 0 < wk
            \<and> (\<forall>r<hk. \<forall>q<wk. \<exists>v. elem Y [0, 0, r, q] = Some v \<and> elem Y [1, 0, r, q] = Some v))"
    if k: "k < 6" for k
  proof -
    from subbands(2) k obtain hk wk where lap: "shape (A im ! k) = [2, 1, hk, wk]"
      and pos: "0 < hk" "0 < wk" by blast
    have filt: "shape (F ! k) = [5, 5]" and fpos: "\<And>i j. i < 5 \<Longrightarrow> j < 5 \<Longrightarrow> 0 \<le> elem (F ! k) [i, j]"
      using filters(2) k by auto
    have kl: "k < length (A im)" "k < length F" "k < length S"
      using k subbands(1) filters(1) sigmas(1) by simp_all
    from nlp_scale_char [OF kl lap pos filt]
    obtain Y where Y: "nlp_scale (A im) F S 1 k = Inr Y" "shape Y = [2, 1, hk, wk]"
      and eY: "\<forall>b<2. \<forall>y<hk. \<forall>x<wk. elem Y [b, 0, y, x]
                 = fdiv (Some (elem (A im ! k) [b, 0, y, x]))
                        (Some (S ! k + pooled (F ! k) (A im ! k) b y x))"
      by blast
    have same: "elem (A im ! k) [0, 0, r, q] = elem (A im ! k) [1, 0, r, q]" for r q
    proof -
      have "elem (A im ! k) [0, 0, r, q] = P k (\<lambda>ix. elem im (0 # ix)) r q"
        using itemwise [rule_format, of k 0 r q] k by simp
      also have "\<dots> = P k (\<lambda>ix. elem im (1 # ix)) r q"
        unfolding items ..
      also have "\<dots> = elem (A im ! k) [1, 0, r, q]"
        using itemwise [rule_format, of k 1 r q] k by simp
      finally show ?thesis .
    qed
    have pad: "padded (tmap abs (A im ! k)) 2 [0, 0, r, q] = padded (tmap abs (A im ! k)) 2 [1, 0, r, q]"
      for r q
      using same by (simp add: padded_def tmap_def Let_def)
    have pool: "pooled (F ! k) (A im ! k) 0 r q = pooled (F ! k) (A im ! k) 1 r q" for r q
      by (simp add: pooled_def pad)
    have nonneg: "0 \<le> pooled (F ! k) (A im ! k) b r q" for b r q
      unfolding pooled_def
      by (intro sum_nonneg mult_nonneg_nonneg) (simp_all add: padded_def tmap_def Let_def fpos)
    have "\<exists>v. elem Y [0, 0, r, q] = Some v \<and> elem Y [1, 0, r, q] = Some v"
      if rq: "r < hk" "q < wk" for r q
    proof -
      have "0 < S ! k + pooled (F ! k) (A im ! k) 0 r q"
        using sigmas(2) k nonneg [of 0 r q] by (simp add: add_pos_nonneg)
      moreover have "pooled (F ! k) (A im ! k) (Suc 0) r q = pooled (F ! k) (A im ! k) 0 r q"
        using pool [of r q] by simp
      moreover have "elem (A im ! k) [Suc 0, 0, r, q] = elem (A im ! k) [0, 0, r, q]"
        using same [of r q] by simp
      ultimately show ?thesis
        using eY [rule_format, of 0 r q] eY [rule_format, of 1 r q] rq
        by simp
    qed
    with Y pos show ?thesis by blast
  qed
  then obtain Yf where Yf: "\<And>k. k < 6 \<Longrightarrow> nlp_scale (A im) F S 1 k = Inr (Yf k)"
    and shYf: "\<And>k. k < 6 \<Longrightarrow> \<exists>hk wk. shape (Yf k) = [2, 1, hk, wk] \<and> 0 < hk \<and> 0 < wk
            \<and> (\<forall>r<hk. \<forall>q<wk. \<exists>v. elem (Yf k) [0, 0, r, q] = Some v
                                   \<and> elem (Yf k) [1, 0, r, q] = Some v)"
    by metis
  have nlp: "normalized_laplacian_pyramid A F S im = Inr (map Yf [0..<6])"
    unfolding normalized_laplacian_pyramid_def shim
    by (simp del: upt_Suc One_nat_def) (rule collect_all, simp add: Yf del: One_nat_def)
  have d: "nlpd_scale (map Yf [0..<6]) i = Inr (Some (1 / 10 ^ 5))" if "i < 6" for i
  proof -
    from shYf [OF that] obtain hk wk where sh: "shape (Yf i) = [2, 1, hk, wk]"
      and pos: "0 < hk" "0 < wk"
      and eq: "\<forall>r<hk. \<forall>q<wk. \<exists>v. elem (Yf i) [0, 0, r, q] = Some v
                                   \<and> elem (Yf i) [1, 0, r, q] = Some v"
      by blast
    have yi: "map Yf [0..<6] ! i = Yf i"
      using that by (simp del: upt_Suc)
    show ?thesis
      by (rule nlpd_scale_equal [where n = 2 and hk = hk and wk = wk])
         (use that sh pos eq in \<open>simp_all add: yi del: upt_Suc\<close>)
  qed
  have "collect (nlpd_scale (map Yf [0..<6])) [0..<6]
      = Inr (map (\<lambda>i. Some (1 / 10 ^ 5)) [0..<6])"
    by (rule collect_all) (simp add: d)
  then show ?thesis
    unfolding nlpd_def cat sum.case nlp by (simp add: foldr_fadd_const del: upt_Suc)
qed

theorem nlpd_identical_witness:
  "nlpd copies (replicate 6 (full [5, 5] 1)) (replicate 6 1) ramp_image ramp_image
     = Inr (Some (1 / 10 ^ 5))"
proof -
  define im :: "real tensor" where
    "im = \<lparr>shape = [2, 1, 2, 2],
            elem = \<lambda>ix. if hd ix < 1 then elem ramp_image ix
                       else elem ramp_image ((hd ix - 1) # tl ix)\<rparr>"
  have cat: "cat0 ramp_image ramp_image = Inr im"
    by (simp add: cat0_def im_def ramp_image_def fun_eq_iff)
  have nth: "replicate 6 x ! k = x" if "k < 6" for k and x :: "'b"
    using that by simp
  show ?thesis
  proof (rule nlpd_identical [OF _ cat, where P = "\<lambda>k f r q. f [0, r, q]"])
    show "shape ramp_image = [1, 1, 2, 2]"
      by (simp add: ramp_image_def)
    show "length (copies im) = 6"
      by (simp add: copies_def)
    show "\<forall>k<6. \<exists>hk wk. shape (copies im ! k) = [2, 1, hk, wk] \<and> 0 < hk \<and> 0 < wk"
      by (simp add: copies_def nth im_def)
    show "\<forall>k<6. \<forall>b<2. \<forall>r q. elem (copies im ! k) [b, 0, r, q] = elem im [b, 0, r, q]"
      by (simp add: copies_def nth)
    show "length (replicate 6 (full [5, 5] (1::real))) = 6"
      by simp
    show "\<forall>k<6. shape (replicate 6 (full [5, 5] (1::real)) ! k) = [5, 5]
        \<and> (\<forall>i<5. \<forall>j<5. 0 \<le> elem (replicate 6 (full [5, 5] (1::real)) ! k) [i, j])"
      by (simp add: nth)
    show "length (replicate 6 (1::real)) = 6"
      by simp
    show "\<forall>k<6. 0 < replicate 6 (1::real) ! k"
      by (simp add: nth)
  qed
qed

lemma collect_length:
  "collect f js = Inr ys \<Longrightarrow> length ys = length js"
  by (induction js arbitrary: ys) (auto split: sum.splits)

lemma collect_nth:
  "collect f js = Inr ys \<Longrightarrow> i < length js \<Longrightarrow> f (js ! i) = Inr (ys ! i)"
proof (induction js arbitrary: ys i)
  case Nil
  then show ?case by simp
next
  case (Cons j js)
  then show ?case
    by (cases i) (auto split: sum.splits)
qed

lemma conv2d_batch:
  assumes "conv2d I W p g = Inr T"
  shows "length (shape I) = 4 \<and> length (shape T) = 4 \<and> hd (shape T) = hd (shape I)"
proof -
  from assms obtain n cin h w where sI: "shape I = [n, cin, h, w]"
    by (cases "\<exists>n cin h w. shape I = [n, cin, h, w]")
       (auto simp: conv2d_def split: list.splits)
  from assms sI obtain cout cpg kh kw where sW: "shape W = [cout, cpg, kh, kw]"
    by (cases "\<exists>cout cpg kh kw. shape W = [cout, cpg, kh, kw]")
       (auto simp: conv2d_def split: list.splits)
  from assms show ?thesis
    unfolding conv2d_def sI sW by (auto split: if_splits)
qed

lemma bshape_batch:
  assumes "length a = 4" "length b = 4" "hd b = hd a"
  shows "length (bshape a b) = 4 \<and> hd (bshape a b) = hd a"
proof -
  from assms(1) obtain x xs where a: "a = x # xs" by (cases a) auto
  from assms(2) obtain z zs where b: "b = z # zs" by (cases b) auto
  from assms show ?thesis by (simp add: bshape_def a b)
qed

lemma nlp_scale_batch:
  assumes "nlp_scale laps F S ch k = Inr Y"
  shows "length (shape Y) = 4 \<and> hd (shape Y) = hd (shape (laps ! k))"
proof -
  let ?lap = "laps ! k"
  let ?w = "tmap Some (unsqueeze 0 (unsqueeze 0 (F ! k)))"
  have k: "\<not> length F \<le> k" "\<not> length laps \<le> k"
    using assms by (auto simp: nlp_scale_def split: if_splits)
  obtain T where c: "conv2d (tmap abs ?lap) ?w 2 ch = Inr T"
    using assms k by (cases "conv2d (tmap abs ?lap) ?w 2 ch") (simp_all add: nlp_scale_def Let_def)
  have Y: "Y = tbin fdiv (tmap Some ?lap) (tmap (\<lambda>v. fadd (Some (S ! k)) v) T)"
    using assms k unfolding nlp_scale_def Let_def c sum.case by (simp split: if_splits)
  from conv2d_batch [OF c]
  have "length (shape ?lap) = 4" "length (shape T) = 4" "hd (shape T) = hd (shape ?lap)"
    by (simp_all add: tmap_def)
  from bshape_batch [OF this] show ?thesis
    by (simp add: Y tbin_def tmap_def)
qed

lemma bshape_same: "bshape s s = s"
  by (induction s) (simp_all add: bshape_def)

lemma bcast_ok_same: "bcast_ok s s"
  by (simp add: bcast_ok_def list_all2_same)

lemma bindex_Cons_one: "bindex (1 # s) (0 # t) = 0 # bindex s t"
  by (simp add: bindex_def)

lemma indices_one: "indices (1 # s) = map ((#) 0) (indices s)"
  by simp

lemma mean_all_lift:
  assumes sh: "shape T = 1 # shape D" and el: "\<And>t. elem T (0 # t) = elem D t"
  shows "mean_all T = mean_all D"
  unfolding mean_all_def numel_def sh indices_one foldr_map comp_def el by simp

lemma four_dims:
  assumes "length s = 4" "hd s = n"
  shows "\<exists>c h w. s = [n, c, h, w]"
proof -
  from assms(1) obtain a s1 where 1: "s = a # s1" "length s1 = 3" by (cases s) auto
  then obtain c s2 where 2: "s1 = c # s2" "length s2 = 2" by (cases s1) auto
  then obtain h s3 where 3: "s2 = h # s3" "length s3 = 1" by (cases s2) auto
  then obtain w where 4: "s3 = [w]" by (cases s3) auto
  from assms(2) show ?thesis by (simp add: 1 2 3 4)
qed

lemma scale_agree:
  assumes len: "length (shape (y ! i)) = 4" and two: "hd (shape (y ! i)) = 2"
  shows "nlpd_scale y i = spec_scale 1 y i"
proof (cases "i < length y")
  case False
  then show ?thesis by (simp add: nlpd_scale_def spec_scale_def)
next
  case True
  from len two have "\<exists>c h w. shape (y ! i) = [2, c, h, w]"
    by (rule four_dims)
  then obtain c h w where sh: "shape (y ! i) = [2, c, h, w]"
    by blast
  let ?y0 = "\<lparr>shape = tl (shape (y ! i)), elem = \<lambda>ix. elem (y ! i) (0 # ix)\<rparr>"
  let ?y1 = "\<lparr>shape = tl (shape (y ! i)), elem = \<lambda>ix. elem (y ! i) (1 # ix)\<rparr>"
  let ?D = "tmap (\<lambda>v. fmul v v) (tbin fsub ?y0 ?y1)"
  let ?h1 = "narrow0 (y ! i) 0 1"
  let ?h2 = "narrow0 (y ! i) 1 (hd (shape (y ! i)) - 1)"
  let ?T = "tmap (\<lambda>v. fmul v v) (tbin fsub ?h1 ?h2)"
  have s0: "select0 (y ! i) 0 = Inr ?y0" and s1: "select0 (y ! i) 1 = Inr ?y1"
    by (simp_all add: select0_def sh)
  have shh: "shape ?h1 = [1, c, h, w]" "shape ?h2 = [1, c, h, w]"
    by (simp_all add: narrow0_def sh)
  have ok: "bcast_ok (shape ?h1) (shape ?h2)"
    unfolding shh by (rule bcast_ok_same)
  have shD: "shape ?D = [c, h, w]"
    by (simp add: tmap_def tbin_def bshape_same sh)
  have "shape ?T = bshape (shape ?h1) (shape ?h2)"
    by (simp add: tmap_def tbin_def)
  then have shT: "shape ?T = 1 # shape ?D"
    unfolding shh bshape_same shD .
  have elT: "elem ?T (0 # t) = elem ?D t" for t
    by (simp add: tmap_def tbin_def narrow0_def sh bindex_def)
  have "mean_all ?T = mean_all ?D"
    using shT elT by (rule mean_all_lift)
  then show ?thesis
    using True ok unfolding nlpd_scale_def spec_scale_def s0 s1 Let_def
    by (simp add: sh)
qed

text \<open>Claim C5, for single images: when the first batch holds one image and every subband
  that the pyramid gives for the concatenated batch holds two items, \<open>nlpd\<close> is the distance
  that the specification words: items 0 and 1 of a normalized subband, which the code
  subtracts, are its image-1 half and its image-2 half; the distance of a scale is the square
  root of the mean squared difference plus \<open>1e-10\<close>, and the result is the mean of the six
  distances.  Both sides raise the same exception when the pyramid or a scale raises.\<close>

theorem nlpd_single_images:
  assumes single: "hd (shape IM_1) = 1" and cat: "cat0 IM_1 IM_2 = Inr im"
    and pyramid: "\<forall>k<6. hd (shape (A im ! k)) = 2"
  shows "nlpd A F S IM_1 IM_2 = nlpd_spec A F S IM_1 IM_2"
proof (cases "normalized_laplacian_pyramid A F S im")
  case (Inl e)
  then show ?thesis
    by (simp add: nlpd_def nlpd_spec_def cat)
next
  case (Inr y)
  then obtain n c h w where
    coll: "collect (nlp_scale (A im) F S c) [0..<6] = Inr y"
    by (auto simp: normalized_laplacian_pyramid_def split: list.splits)
  have agree: "nlpd_scale y i = spec_scale 1 y i" if "i \<in> set [0..<6]" for i
  proof -
    from that have i: "i < 6" by simp
    then have "i < length [0..<6]" by simp
    from collect_nth [OF coll this] i
    have "nlp_scale (A im) F S c i = Inr (y ! i)"
      by (simp del: upt_Suc)
    from nlp_scale_batch [OF this] pyramid i
    show ?thesis by (intro scale_agree) simp_all
  qed
  have same: "collect (nlpd_scale y) [0..<6] = collect (spec_scale 1 y) [0..<6]"
    by (rule collect_cong) (rule agree)
  show ?thesis
  proof (cases "collect (spec_scale 1 y) [0..<6]")
    case (Inl e)
    then show ?thesis
      using same by (simp add: nlpd_def nlpd_spec_def cat Inr single del: upt_Suc)
  next
    case (Inr ds)
    from collect_length [OF this] have "length ds = 6" by simp
    then show ?thesis
      using same Inr \<open>normalized_laplacian_pyramid A F S im = Inr y\<close>
      by (simp add: nlpd_def nlpd_spec_def cat single del: upt_Suc)
  qed
qed

theorem nlpd_single_images_witness:
  "nlpd copies (replicate 6 (full [5, 5] 0)) (replicate 6 1)
       (full [1, 1, 1, 1] 0) (full [1, 1, 1, 1] 1)
   = nlpd_spec copies (replicate 6 (full [5, 5] 0)) (replicate 6 1)
       (full [1, 1, 1, 1] 0) (full [1, 1, 1, 1] 1)"
proof -
  obtain im where cat: "cat0 (full [1, 1, 1, 1] (0::real)) (full [1, 1, 1, 1] 1) = Inr im"
    and shim: "shape im = [2, 1, 1, 1]"
    by (simp add: cat0_def)
  show ?thesis
  proof (rule nlpd_single_images [OF _ cat])
    show "hd (shape (full [1, 1, 1, 1] (0::real))) = 1"
      by simp
    show "\<forall>k<6. hd (shape (copies im ! k)) = 2"
      by (simp add: copies_def shim)
  qed
qed

lemma nlpd_scale_val:
  assumes i: "i < length y" and sh: "shape (y ! i) = [n, 1, 1, 1]" and n: "2 \<le> n"
    and a: "elem (y ! i) [0, 0, 0, 0] = Some a" and b: "elem (y ! i) [1, 0, 0, 0] = Some b"
  shows "nlpd_scale y i = Inr (Some (sqrt ((a - b) * (a - b) + epsilon)))"
proof -
  let ?y0 = "\<lparr>shape = tl (shape (y ! i)), elem = \<lambda>ix. elem (y ! i) (0 # ix)\<rparr>"
  let ?y1 = "\<lparr>shape = tl (shape (y ! i)), elem = \<lambda>ix. elem (y ! i) (1 # ix)\<rparr>"
  let ?D = "tmap (\<lambda>v. fmul v v) (tbin fsub ?y0 ?y1)"
  have s0: "select0 (y ! i) 0 = Inr ?y0" and s1: "select0 (y ! i) 1 = Inr ?y1"
    using n by (simp_all add: select0_def sh)
  have shD: "shape ?D = [1, 1, 1]"
    by (simp add: tmap_def tbin_def bshape_def sh)
  have eD: "elem ?D [0, 0, 0] = Some ((a - b) * (a - b))"
    using a b by (simp add: tmap_def tbin_def bindex_def sh)
  have "mean_all ?D = Some ((a - b) * (a - b))"
    unfolding mean_all_def numel_def shD by (simp add: eD [simplified])
  moreover have "0 \<le> (a - b) * (a - b) + epsilon"
    by (simp add: epsilon_def)
  ultimately have "fsqrt (fadd (mean_all ?D) (Some epsilon))
      = Some (sqrt ((a - b) * (a - b) + epsilon))"
    by simp
  then show ?thesis
    using i unfolding nlpd_scale_def s0 s1 by simp
qed

lemma spec_scale_val:
  assumes i: "i < length y" and sh: "shape (y ! i) = [4, 1, 1, 1]"
    and a: "elem (y ! i) [0, 0, 0, 0] = Some a" "elem (y ! i) [2, 0, 0, 0] = Some a"
    and b: "elem (y ! i) [1, 0, 0, 0] = Some b" "elem (y ! i) [3, 0, 0, 0] = Some b"
  shows "spec_scale 2 y i = Inr (Some (1 / 10 ^ 5))"
proof -
  let ?h1 = "narrow0 (y ! i) 0 2"
  let ?h2 = "narrow0 (y ! i) 2 (hd (shape (y ! i)) - 2)"
  let ?T = "tmap (\<lambda>v. fmul v v) (tbin fsub ?h1 ?h2)"
  have shh: "shape ?h1 = [2, 1, 1, 1]" "shape ?h2 = [2, 1, 1, 1]"
    by (simp_all add: narrow0_def sh)
  have ok: "bcast_ok (shape ?h1) (shape ?h2)"
    unfolding shh by (rule bcast_ok_same)
  have "shape ?T = bshape (shape ?h1) (shape ?h2)"
    by (simp add: tmap_def tbin_def)
  then have shT: "shape ?T = [2, 1, 1, 1]"
    unfolding shh bshape_same .
  have a2: "elem (y ! i) [Suc (Suc 0), 0, 0, 0] = Some a"
    using a(2) by (simp add: numeral_2_eq_2)
  have b3: "elem (y ! i) [Suc (Suc (Suc 0)), 0, 0, 0] = Some b"
    using b(2) by (simp add: numeral_3_eq_3)
  have e0: "elem ?T [0, 0, 0, 0] = Some 0"
    using a a2 by (simp add: tmap_def tbin_def narrow0_def sh bindex_def)
  have e1: "elem ?T [1, 0, 0, 0] = Some 0"
    using b b3 by (simp add: tmap_def tbin_def narrow0_def sh bindex_def)
  have ind: "indices [2, 1, 1, 1] = [[0, 0, 0, 0], [1, 0, 0, 0]]"
    by (simp add: numeral_2_eq_2)
  have "mean_all ?T = Some 0"
  proof (rule mean_all_zero)
    show "elem ?T ix = Some 0" if "ix \<in> set (indices (shape ?T))" for ix
      using that e0 e1 unfolding shT ind by auto
    show "0 < numel ?T"
      unfolding numel_def shT by simp
  qed
  then have "fsqrt (fadd (mean_all ?T) (Some epsilon)) = Some (1 / 10 ^ 5)"
    by (simp add: sqrt_epsilon) (simp add: epsilon_def)
  then show ?thesis
    using i ok unfolding spec_scale_def Let_def by (simp add: sh)
qed

lemma pooled_zero: "pooled (full [5, 5] 0) lap b r q = 0"
  by (simp add: pooled_def)

lemma copies_pyramid:
  assumes sh: "shape im = [n, 1, 1, 1]"
  shows "\<exists>y. normalized_laplacian_pyramid copies (replicate 6 (full [5, 5] 0)) (replicate 6 1) im
           = Inr y \<and> length y = 6
         \<and> (\<forall>i<6. shape (y ! i) = [n, 1, 1, 1]
               \<and> (\<forall>b<n. elem (y ! i) [b, 0, 0, 0] = Some (elem im [b, 0, 0, 0])))"
proof -
  let ?F = "replicate 6 (full [5, 5] (0::real))"
  let ?S = "replicate 6 (1::real)"
  have scale: "\<exists>Y. nlp_scale (copies im) ?F ?S 1 k = Inr Y \<and> shape Y = [n, 1, 1, 1]
      \<and> (\<forall>b<n. elem Y [b, 0, 0, 0] = Some (elem im [b, 0, 0, 0]))" if k: "k < 6" for k
  proof -
    have nth: "copies im ! k = im" "?F ! k = full [5, 5] 0" "?S ! k = 1"
      using k by (simp_all add: copies_def)
    have kl: "k < length (copies im)" "k < length ?F" "k < length ?S"
      using k by (simp_all add: copies_def)
    have lap: "shape (copies im ! k) = [n, 1, 1, 1]"
      unfolding nth by (rule sh)
    have filt: "shape (?F ! k) = [5, 5]"
      unfolding nth by simp
    from nlp_scale_char [OF kl lap _ _ filt]
    obtain Y where Y: "nlp_scale (copies im) ?F ?S 1 k = Inr Y" "shape Y = [n, 1, 1, 1]"
      and eY: "\<forall>b<n. \<forall>y<1. \<forall>x<1. elem Y [b, 0, y, x]
                 = fdiv (Some (elem (copies im ! k) [b, 0, y, x]))
                        (Some (?S ! k + pooled (?F ! k) (copies im ! k) b y x))"
      by auto
    have "elem Y [b, 0, 0, 0] = Some (elem im [b, 0, 0, 0])" if "b < n" for b
      using eY [rule_format, of b 0 0] that unfolding nth pooled_zero by simp
    with Y show ?thesis by blast
  qed
  then obtain Yf where Yf: "\<And>k. k < 6 \<Longrightarrow> nlp_scale (copies im) ?F ?S 1 k = Inr (Yf k)"
    and cYf: "\<And>k. k < 6 \<Longrightarrow> shape (Yf k) = [n, 1, 1, 1]
            \<and> (\<forall>b<n. elem (Yf k) [b, 0, 0, 0] = Some (elem im [b, 0, 0, 0]))"
    by metis
  have "normalized_laplacian_pyramid copies ?F ?S im = Inr (map Yf [0..<6])"
    unfolding normalized_laplacian_pyramid_def sh
    by (simp del: upt_Suc One_nat_def) (rule collect_all, simp add: Yf del: One_nat_def)
  moreover have "length (map Yf [0..<6]) = 6"
    by simp
  moreover have "shape (map Yf [0..<6] ! i) = [n, 1, 1, 1]
      \<and> (\<forall>b<n. elem (map Yf [0..<6] ! i) [b, 0, 0, 0] = Some (elem im [b, 0, 0, 0]))"
    if "i < 6" for i
  proof -
    have "map Yf [0..<6] ! i = Yf i"
      using that by (simp del: upt_Suc)
    then show ?thesis
      using cYf [OF that] by simp
  qed
  ultimately show ?thesis by blast
qed

text \<open>Claim C5 as stated, for batches: on two batches of two images each the code subtracts
  items 0 and 1 of every normalized subband, which are the two images of the first batch, and
  never reads the second batch.  With the pyramid \<open>copies\<close>, zero filters and sigmas 1, the two
  equal batches \<open>two_images\<close> get the distance \<open>sqrt (1 + 1e-10)\<close>, where the split into the
  halves of the two batches gives \<open>1e-5\<close>.\<close>

theorem nlpd_batch_of_two:
  "nlpd copies (replicate 6 (full [5, 5] 0)) (replicate 6 1) two_images two_images
     = Inr (Some (sqrt (1 + 1 / 10 ^ 10)))
   \<and> nlpd_spec copies (replicate 6 (full [5, 5] 0)) (replicate 6 1) two_images two_images
     = Inr (Some (1 / 10 ^ 5))"
proof -
  let ?F = "replicate 6 (full [5, 5] (0::real))"
  let ?S = "replicate 6 (1::real)"
  define im :: "real tensor" where
    "im = \<lparr>shape = [4, 1, 1, 1],
            elem = \<lambda>ix. if hd ix < 2 then real (hd ix) else real (hd ix - 2)\<rparr>"
  have cat: "cat0 two_images two_images = Inr im"
    by (simp add: cat0_def two_images_def im_def fun_eq_iff)
  have shim: "shape im = [4, 1, 1, 1]"
    by (simp add: im_def)
  from copies_pyramid [OF shim] obtain y where
    y: "normalized_laplacian_pyramid copies ?F ?S im = Inr y" and len: "length y = 6"
    and cy: "\<And>i. i < 6 \<Longrightarrow> shape (y ! i) = [4, 1, 1, 1]"
    and ey: "\<And>i b. i < 6 \<Longrightarrow> b < 4 \<Longrightarrow> elem (y ! i) [b, 0, 0, 0] = Some (elem im [b, 0, 0, 0])"
    by blast
  have v: "elem im [0, 0, 0, 0] = 0" "elem im [1, 0, 0, 0] = 1"
    "elem im [2, 0, 0, 0] = 0" "elem im [3, 0, 0, 0] = 1"
    by (simp_all add: im_def)
  have code: "nlpd_scale y i = Inr (Some (sqrt (1 + 1 / 10 ^ 10)))" if "i < 6" for i
  proof -
    have "nlpd_scale y i = Inr (Some (sqrt ((0 - 1) * (0 - 1) + epsilon)))"
    proof (rule nlpd_scale_val [where n = 4])
      show "i < length y" using that len by simp
      show "shape (y ! i) = [4, 1, 1, 1]" using that by (rule cy)
      show "(2::nat) \<le> 4" by simp
      show "elem (y ! i) [0, 0, 0, 0] = Some 0" using ey [OF that, of 0] v by simp
      show "elem (y ! i) [1, 0, 0, 0] = Some 1" using ey [OF that, of 1] v by simp
    qed
    then show ?thesis by (simp add: epsilon_def)
  qed
  have spec: "spec_scale 2 y i = Inr (Some (1 / 10 ^ 5))" if "i < 6" for i
  proof (rule spec_scale_val [where a = 0 and b = 1])
    show "i < length y" using that len by simp
    show "shape (y ! i) = [4, 1, 1, 1]" using that by (rule cy)
    show "elem (y ! i) [0, 0, 0, 0] = Some 0" using ey [OF that, of 0] v by simp
    show "elem (y ! i) [2, 0, 0, 0] = Some 0" using ey [OF that, of 2] v by simp
    show "elem (y ! i) [1, 0, 0, 0] = Some 1" using ey [OF that, of 1] v by simp
    show "elem (y ! i) [3, 0, 0, 0] = Some 1" using ey [OF that, of 3] v by simp
  qed
  have c1: "collect (nlpd_scale y) [0..<6] = Inr (map (\<lambda>i. Some (sqrt (1 + 1 / 10 ^ 10))) [0..<6])"
    by (rule collect_all) (simp add: code)
  have c2: "collect (spec_scale 2 y) [0..<6] = Inr (map (\<lambda>i. Some (1 / 10 ^ 5)) [0..<6])"
    by (rule collect_all) (simp add: spec)
  have h: "hd (shape two_images) = 2"
    by (simp add: two_images_def)
  have "nlpd copies ?F ?S two_images two_images = Inr (Some (sqrt (1 + 1 / 10 ^ 10)))"
    unfolding nlpd_def cat sum.case y c1 by (simp add: foldr_fadd_const del: upt_Suc)
  moreover have "nlpd_spec copies ?F ?S two_images two_images = Inr (Some (1 / 10 ^ 5))"
    unfolding nlpd_spec_def cat sum.case y h c2 by (simp add: foldr_fadd_const del: upt_Suc)
  ultimately show ?thesis by (rule conjI)
qed

lemma nlpd_copies_value:
  assumes s1: "shape IM_1 = [n1, 1, 1, 1]" and s2: "shape IM_2 = [n2, 1, 1, 1]" and n: "2 \<le> n1"
  shows "nlpd copies (replicate 6 (full [5, 5] 0)) (replicate 6 1) IM_1 IM_2
     = Inr (Some (sqrt ((elem IM_1 [0, 0, 0, 0] - elem IM_1 [1, 0, 0, 0])
                        * (elem IM_1 [0, 0, 0, 0] - elem IM_1 [1, 0, 0, 0]) + epsilon)))"
proof -
  let ?F = "replicate 6 (full [5, 5] (0::real))"
  let ?S = "replicate 6 (1::real)"
  let ?a = "elem IM_1 [0, 0, 0, 0]"
  let ?b = "elem IM_1 [1, 0, 0, 0]"
  obtain im where cat: "cat0 IM_1 IM_2 = Inr im" and shim: "shape im = [n1 + n2, 1, 1, 1]"
    and e0: "elem im [0, 0, 0, 0] = ?a" and e1: "elem im [1, 0, 0, 0] = ?b"
    using s1 s2 n by (simp add: cat0_def)
  from copies_pyramid [OF shim] obtain y where
    y: "normalized_laplacian_pyramid copies ?F ?S im = Inr y" and len: "length y = 6"
    and cy: "\<And>i. i < 6 \<Longrightarrow> shape (y ! i) = [n1 + n2, 1, 1, 1]"
    and ey: "\<And>i b. i < 6 \<Longrightarrow> b < n1 + n2 \<Longrightarrow> elem (y ! i) [b, 0, 0, 0] = Some (elem im [b, 0, 0, 0])"
    by blast
  have code: "nlpd_scale y i = Inr (Some (sqrt ((?a - ?b) * (?a - ?b) + epsilon)))" if "i < 6" for i
  proof (rule nlpd_scale_val [where n = "n1 + n2"])
    show "i < length y" using that len by simp
    show "shape (y ! i) = [n1 + n2, 1, 1, 1]" using that by (rule cy)
    show "2 \<le> n1 + n2" using n by simp
    show "elem (y ! i) [0, 0, 0, 0] = Some ?a" using ey [OF that, of 0] n e0 by simp
    show "elem (y ! i) [1, 0, 0, 0] = Some ?b" using ey [OF that, of 1] n e1 by simp
  qed
  have c1: "collect (nlpd_scale y) [0..<6]
      = Inr (map (\<lambda>i. Some (sqrt ((?a - ?b) * (?a - ?b) + epsilon))) [0..<6])"
    by (rule collect_all) (simp add: code)
  show ?thesis
    unfolding nlpd_def cat sum.case y c1 by (simp add: foldr_fadd_const del: upt_Suc)
qed

text \<open>
  Claim C7 as stated, for a batch of more than one image: \<open>nlpd\<close> subtracts the first two
  items of every normalized subband.  For the batch \<open>two_images\<close>, with the pyramid
  \<open>copies\<close>, zero filters and sigmas 1, \<open>nlpd(img, img)\<close> is \<open>sqrt (1 + 1e-10)\<close>, which is above
  1: it is not \<open>1e-5\<close>.
\<close>

theorem nlpd_identical_batch:
  "nlpd copies (replicate 6 (full [5, 5] 0)) (replicate 6 1) two_images two_images
     = Inr (Some (sqrt (1 + 1 / 10 ^ 10)))
   \<and> 1 \<le> sqrt (1 + 1 / 10 ^ 10 :: real)"
proof
  have "nlpd copies (replicate 6 (full [5, 5] 0)) (replicate 6 1) two_images two_images
     = Inr (Some (sqrt ((elem two_images [0, 0, 0, 0] - elem two_images [1, 0, 0, 0])
                        * (elem two_images [0, 0, 0, 0] - elem two_images [1, 0, 0, 0]) + epsilon)))"
    by (rule nlpd_copies_value [where ?n1.0 = 2 and ?n2.0 = 2]) (simp_all add: two_images_def)
  then show "nlpd copies (replicate 6 (full [5, 5] 0)) (replicate 6 1) two_images two_images
     = Inr (Some (sqrt (1 + 1 / 10 ^ 10)))"
    by (simp add: two_images_def epsilon_def)
  show "1 \<le> sqrt (1 + 1 / 10 ^ 10 :: real)"
    by simp
qed

text \<open>
  Claim C4 as stated.  \<open>nlpd\<close> has no rule on batch sizes: on batches of 3 and of 2 images,
  where the claim asks for a raise, it returns a value (with the pyramid \<open>copies\<close>, zero
  filters and sigmas 1).  \<open>ssim\<close> on two batches of one image of 1 by 2 pixels, where the
  claim asks for a result, raises at line 155.  \<open>ssim\<close> on two batches of the same batch
  size, height and width, with one and with two channels, raises in the convolution.
\<close>

theorem batch_law_fails:
  "nlpd copies (replicate 6 (full [5, 5] 0)) (replicate 6 1)
      (full [3, 1, 1, 1] 0) (full [2, 1, 1, 1] 0) = Inr (Some (1 / 10 ^ 5))
   \<and> snd (ssim (full [1, 1, 1, 2] 0) (full [1, 1, 1, 2] 0) False 1) = Inl MatmulShape
   \<and> snd (ssim (full [1, 1, 1, 1] 0) (full [1, 2, 1, 1] 0) False 1) = Inl ConvShape"
proof (intro conjI)
  have "nlpd copies (replicate 6 (full [5, 5] 0)) (replicate 6 1)
      (full [3, 1, 1, 1] 0) (full [2, 1, 1, 1] 0)
     = Inr (Some (sqrt ((elem (full [3, 1, 1, 1] (0::real)) [0, 0, 0, 0]
                          - elem (full [3, 1, 1, 1] (0::real)) [1, 0, 0, 0])
                        * (elem (full [3, 1, 1, 1] (0::real)) [0, 0, 0, 0]
                          - elem (full [3, 1, 1, 1] (0::real)) [1, 0, 0, 0]) + epsilon)))"
    by (rule nlpd_copies_value [where ?n1.0 = 3 and ?n2.0 = 2]) simp_all
  then show "nlpd copies (replicate 6 (full [5, 5] 0)) (replicate 6 1)
      (full [3, 1, 1, 1] 0) (full [2, 1, 1, 1] 0) = Inr (Some (1 / 10 ^ 5))"
    by (simp add: sqrt_epsilon)
  have "snd (ssim_parts (full [1, 1, 1, 2] 0) (full [1, 1, 1, 2] 0) 1) = Inl MatmulShape"
    by (rule ssim_parts_nonsquare [of _ 1 1 1 2 _ 1]) simp_all
  then show "snd (ssim (full [1, 1, 1, 2] 0) (full [1, 1, 1, 2] 0) False 1) = Inl MatmulShape"
    by (simp add: ssim_snd)
  have "snd (ssim_parts (full [1, 1, 1, 1] 0) (full [1, 2, 1, 1] 0) 1) = Inl ConvShape"
    by (rule ssim_parts_channels [of _ 1 1 1 1 _ 1 2]) simp_all
  then show "snd (ssim (full [1, 1, 1, 1] 0) (full [1, 2, 1, 1] 0) False 1) = Inl ConvShape"
    by (simp add: ssim_snd)
qed

lemma cat0_mismatch:
  assumes "tl (shape a) \<noteq> tl (shape b)"
  shows "cat0 a b = Inl CatShape"
  using assms by (simp add: cat0_def)

lemma nspd_mismatch:
  assumes "tl (shape IM_1) \<noteq> tl (shape IM_2)"
  shows "\<exists>e. nspd P N IM_1 IM_2 order height complex = Inl e"
  using cat0_mismatch [OF assms]
  by (cases "P (drop (length (shape IM_1) - 2) (shape IM_1)) order height complex")
     (simp_all add: nspd_def)

text \<open>
  Claim C4, for the metrics of the sources.  For \<open>ssim\<close> and \<open>ssim_map\<close> on two 4d batches
  without an empty dimension and a dynamic range of 1, 2 or 255: if the heights or the
  widths differ, the call raises the exception about the spatial size, after the warnings
  about the range and the channels only, before the window is built; if they agree and the
  batch sizes differ with neither equal to 1, it raises the exception about the batch size
  at the same point; if they agree, the channel counts agree, and the batch sizes are equal
  or one of them is 1, the call passes both checks and, when the height is the width,
  returns a tensor whose first dimension is the larger batch size.  \<open>nlpd\<close> and \<open>nspd\<close> have no rule on batch sizes:
  they concatenate the two batches along the batch axis, which raises when the other
  dimensions differ (in \<open>nlpd\<close> before anything else), and they return a scalar.
\<close>

theorem metrics_batch_law:
  assumes s1: "shape img1 = [n1, c1, h1, w1]" and s2: "shape img2 = [n2, c2, h2, w2]"
    and pos: "0 < n1" "0 < n2" "0 < c1" "0 < c2" "0 < h1" "0 < w1" "0 < h2" "0 < w2"
    and dr: "dr = 1 \<or> dr = 2 \<or> dr = 255"
  shows "(h2 \<noteq> h1 \<or> w2 \<noteq> w1 \<longrightarrow>
            ssim img1 img2 weighted dr
              = (range_warning dr img1 img2 @ (if 1 < c1 then [MultiChannelWarning] else []),
                 Inl SpatialMismatch)
            \<and> ssim_map img1 img2 dr
              = (range_warning dr img1 img2 @ (if 1 < c1 then [MultiChannelWarning] else []),
                 Inl SpatialMismatch))
       \<and> (h2 = h1 \<and> w2 = w1 \<and> n1 \<noteq> n2 \<and> n1 \<noteq> 1 \<and> n2 \<noteq> 1 \<longrightarrow>
            ssim img1 img2 weighted dr
              = (range_warning dr img1 img2 @ (if 1 < c1 then [MultiChannelWarning] else []),
                 Inl BatchMismatch)
            \<and> ssim_map img1 img2 dr
              = (range_warning dr img1 img2 @ (if 1 < c1 then [MultiChannelWarning] else []),
                 Inl BatchMismatch))
       \<and> (h2 = h1 \<and> w2 = w1 \<and> c2 = c1 \<and> h1 = w1 \<and> (n1 = n2 \<or> n1 = 1 \<or> n2 = 1) \<longrightarrow>
            (\<exists>t. snd (ssim img1 img2 weighted dr) = Inr t \<and> shape t = [max n1 n2, c1])
            \<and> (\<exists>m. snd (ssim_map img1 img2 dr) = Inr m
                  \<and> shape m = [max n1 n2, c1, h1 + 1 - real_size h1 h1, h1 + 1 - real_size h1 h1]))
       \<and> (h2 = h1 \<and> w2 = w1 \<and> c2 = c1 \<and> (n1 = n2 \<or> n1 = 1 \<or> n2 = 1) \<longrightarrow>
            snd (ssim img1 img2 weighted dr) \<noteq> Inl SpatialMismatch
            \<and> snd (ssim img1 img2 weighted dr) \<noteq> Inl BatchMismatch
            \<and> snd (ssim_map img1 img2 dr) \<noteq> Inl SpatialMismatch
            \<and> snd (ssim_map img1 img2 dr) \<noteq> Inl BatchMismatch)
       \<and> (c2 \<noteq> c1 \<or> h2 \<noteq> h1 \<or> w2 \<noteq> w1 \<longrightarrow>
            nlpd A F S img1 img2 = Inl CatShape
            \<and> (\<exists>e. nspd P N img1 img2 order height complex = Inl e))"
proof (intro conjI impI)
  assume "h2 \<noteq> h1 \<or> w2 \<noteq> w1"
  note r = ssim_parts_spatial [OF s1 s2 pos this]
  from r show "ssim img1 img2 weighted dr
      = (range_warning dr img1 img2 @ (if 1 < c1 then [MultiChannelWarning] else []),
         Inl SpatialMismatch)"
    by (simp add: ssim_def)
  from r show "ssim_map img1 img2 dr
      = (range_warning dr img1 img2 @ (if 1 < c1 then [MultiChannelWarning] else []),
         Inl SpatialMismatch)"
    by (simp add: ssim_map_def)
next
  assume a: "h2 = h1 \<and> w2 = w1 \<and> n1 \<noteq> n2 \<and> n1 \<noteq> 1 \<and> n2 \<noteq> 1"
  then have s2': "shape img2 = [n2, c2, h1, w1]" using s2 by simp
  from a have r: "ssim_parts img1 img2 dr
      = (range_warning dr img1 img2 @ (if 1 < c1 then [MultiChannelWarning] else []),
         Inl BatchMismatch)"
    by (intro ssim_parts_batch [OF s1 s2' pos(1-6)]) simp_all
  from r show "ssim img1 img2 weighted dr
      = (range_warning dr img1 img2 @ (if 1 < c1 then [MultiChannelWarning] else []),
         Inl BatchMismatch)"
    by (simp add: ssim_def)
  from r show "ssim_map img1 img2 dr
      = (range_warning dr img1 img2 @ (if 1 < c1 then [MultiChannelWarning] else []),
         Inl BatchMismatch)"
    by (simp add: ssim_map_def)
next
  assume a: "h2 = h1 \<and> w2 = w1 \<and> c2 = c1 \<and> h1 = w1 \<and> (n1 = n2 \<or> n1 = 1 \<or> n2 = 1)"
  then have s1': "shape img1 = [n1, c1, h1, h1]" and s2': "shape img2 = [n2, c1, h1, h1]"
    and compat: "n1 = n2 \<or> n1 = 1 \<or> n2 = 1"
    using s1 s2 by simp_all
  have dr0: "dr \<noteq> 0" using dr by (rule valid_dr)
  from ssim_char [OF s1' s2' pos(1,2,3,5) compat dr0]
  obtain M C Wt t u where parts: "snd (ssim_parts img1 img2 dr) = Inr (M, C, Wt)"
    and M: "has4 M (max n1 n2) c1 (h1 + 1 - real_size h1 h1) (h1 + 1 - real_size h1 h1)
              (\<lambda>b ch y x. Some (ssim_at dr img1 img2 b ch y x))"
    and tu: "snd (ssim img1 img2 False dr) = Inr t" "shape t = [max n1 n2, c1]"
    "snd (ssim img1 img2 True dr) = Inr u" "shape u = [max n1 n2, c1]"
    by blast
  from tu show "\<exists>t. snd (ssim img1 img2 weighted dr) = Inr t \<and> shape t = [max n1 n2, c1]"
    by (cases weighted) auto
  have "snd (ssim_map img1 img2 dr) = Inr M"
    by (simp add: ssim_map_snd parts)
  with has4_shape [OF M]
  show "\<exists>m. snd (ssim_map img1 img2 dr) = Inr m
      \<and> shape m = [max n1 n2, c1, h1 + 1 - real_size h1 h1, h1 + 1 - real_size h1 h1]"
    by blast
next
  assume a: "h2 = h1 \<and> w2 = w1 \<and> c2 = c1 \<and> (n1 = n2 \<or> n1 = 1 \<or> n2 = 1)"
  then have s2': "shape img2 = [n2, c1, h1, w1]" and compat: "n1 = n2 \<or> n1 = 1 \<or> n2 = 1"
    using s2 by simp_all
  have dr0: "dr \<noteq> 0" using dr by (rule valid_dr)
  have parts: "snd (ssim_parts img1 img2 dr) = Inl MatmulShape
      \<or> (\<exists>r. snd (ssim_parts img1 img2 dr) = Inr r)"
  proof (cases "h1 = w1")
    case True
    with s1 s2' have "shape img1 = [n1, c1, h1, h1]" "shape img2 = [n2, c1, h1, h1]"
      by simp_all
    from ssim_char [OF this pos(1,2,3,5) compat dr0] show ?thesis
      by blast
  next
    case False
    from ssim_parts_nonsquare [OF s1 s2' pos(1,2,3,5,6) compat False] show ?thesis
      by simp
  qed
  then show "snd (ssim img1 img2 weighted dr) \<noteq> Inl SpatialMismatch"
    "snd (ssim img1 img2 weighted dr) \<noteq> Inl BatchMismatch"
    "snd (ssim_map img1 img2 dr) \<noteq> Inl SpatialMismatch"
    "snd (ssim_map img1 img2 dr) \<noteq> Inl BatchMismatch"
    by (auto simp: ssim_snd ssim_map_snd split: prod.splits)
next
  assume "c2 \<noteq> c1 \<or> h2 \<noteq> h1 \<or> w2 \<noteq> w1"
  then have ne: "tl (shape img1) \<noteq> tl (shape img2)"
    using s1 s2 by auto
  from cat0_mismatch [OF ne] show "nlpd A F S img1 img2 = Inl CatShape"
    by (simp add: nlpd_def)
  from ne show "\<exists>e. nspd P N img1 img2 order height complex = Inl e"
    by (rule nspd_mismatch)
qed

theorem metrics_batch_law_witness:
  "ssim (full [1, 1, 2, 2] 0) (full [1, 1, 2, 3] 0) False 1
     = (range_warning 1 (full [1, 1, 2, 2] 0) (full [1, 1, 2, 3] 0), Inl SpatialMismatch)
   \<and> ssim_map (full [1, 1, 2, 2] 0) (full [1, 1, 2, 3] 0) 1
     = (range_warning 1 (full [1, 1, 2, 2] 0) (full [1, 1, 2, 3] 0), Inl SpatialMismatch)
   \<and> nlpd copies (replicate 6 (full [5, 5] 0)) (replicate 6 1)
        (full [1, 1, 2, 2] 0) (full [1, 1, 2, 3] 0) = Inl CatShape
   \<and> (\<exists>e. nspd identity_pyramid one_band (full [1, 1, 2, 2] 0) (full [1, 1, 2, 3] 0) 1 5 True
          = Inl e)
   \<and> ssim (full [3, 1, 2, 2] 0) (full [2, 1, 2, 2] 0) False 1
     = (range_warning 1 (full [3, 1, 2, 2] 0) (full [2, 1, 2, 2] 0), Inl BatchMismatch)
   \<and> ssim_map (full [3, 1, 2, 2] 0) (full [2, 1, 2, 2] 0) 1
     = (range_warning 1 (full [3, 1, 2, 2] 0) (full [2, 1, 2, 2] 0), Inl BatchMismatch)
   \<and> (\<exists>t. snd (ssim (full [3, 1, 2, 2] 0) (full [1, 1, 2, 2] 0) False 1) = Inr t
          \<and> shape t = [3, 1])
   \<and> (\<exists>m. snd (ssim_map (full [3, 1, 2, 2] 0) (full [1, 1, 2, 2] 0) 1) = Inr m
          \<and> shape m = [3, 1, 1, 1])
   \<and> snd (ssim (full [3, 1, 2, 3] 0) (full [1, 1, 2, 3] 0) False 1) \<noteq> Inl BatchMismatch"
proof -
  note a = metrics_batch_law [of "full [1, 1, 2, 2] 0" 1 1 2 2 "full [1, 1, 2, 3] 0" 1 1 2 3 1
      False copies "replicate 6 (full [5, 5] 0)" "replicate 6 1" identity_pyramid one_band 1 5 True]
  note b = metrics_batch_law [of "full [3, 1, 2, 2] 0" 3 1 2 2 "full [2, 1, 2, 2] 0" 2 1 2 2 1
      False copies "replicate 6 (full [5, 5] 0)" "replicate 6 1" identity_pyramid one_band 1 5 True]
  note c = metrics_batch_law [of "full [3, 1, 2, 2] 0" 3 1 2 2 "full [1, 1, 2, 2] 0" 1 1 2 2 1
      False copies "replicate 6 (full [5, 5] 0)" "replicate 6 1" identity_pyramid one_band 1 5 True]
  have 1: "ssim (full [1, 1, 2, 2] 0) (full [1, 1, 2, 3] 0) False 1
     = (range_warning 1 (full [1, 1, 2, 2] 0) (full [1, 1, 2, 3] 0), Inl SpatialMismatch)"
    using a by simp
  have 2: "ssim_map (full [1, 1, 2, 2] 0) (full [1, 1, 2, 3] 0) 1
     = (range_warning 1 (full [1, 1, 2, 2] 0) (full [1, 1, 2, 3] 0), Inl SpatialMismatch)"
    using a by simp
  have 3: "nlpd copies (replicate 6 (full [5, 5] 0)) (replicate 6 1)
        (full [1, 1, 2, 2] 0) (full [1, 1, 2, 3] 0) = Inl CatShape"
    using a by simp
  have 4: "\<exists>e. nspd identity_pyramid one_band (full [1, 1, 2, 2] 0) (full [1, 1, 2, 3] 0) 1 5 True
          = Inl e"
    using a by simp
  have 5: "ssim (full [3, 1, 2, 2] 0) (full [2, 1, 2, 2] 0) False 1
     = (range_warning 1 (full [3, 1, 2, 2] 0) (full [2, 1, 2, 2] 0), Inl BatchMismatch)"
    using b by simp
  have 6: "ssim_map (full [3, 1, 2, 2] 0) (full [2, 1, 2, 2] 0) 1
     = (range_warning 1 (full [3, 1, 2, 2] 0) (full [2, 1, 2, 2] 0), Inl BatchMismatch)"
    using b by simp
  have 7: "\<exists>t. snd (ssim (full [3, 1, 2, 2] 0) (full [1, 1, 2, 2] 0) False 1) = Inr t
          \<and> shape t = [3, 1]"
    using c by simp
  have 8: "\<exists>m. snd (ssim_map (full [3, 1, 2, 2] 0) (full [1, 1, 2, 2] 0) 1) = Inr m
          \<and> shape m = [3, 1, 1, 1]"
    using c by (simp add: real_size_def)
  have 9: "snd (ssim (full [3, 1, 2, 3] 0) (full [1, 1, 2, 3] 0) False 1) \<noteq> Inl BatchMismatch"
    using metrics_batch_law [of "full [3, 1, 2, 3] 0" 3 1 2 3 "full [1, 1, 2, 3] 0" 1 1 2 3 1
      False copies "replicate 6 (full [5, 5] 0)" "replicate 6 1" identity_pyramid one_band 1 5 True]
    by simp
  from 1 2 3 4 5 6 7 8 9 show ?thesis by (intro conjI)
qed

section \<open>Properties of loading\<close>

lemma for_each_unchanged:
  assumes "\<And>k s. snd (body k s) = s"
  shows "snd (for_each body ks self) = self"
proof (induction ks)
  case Nil
  show ?case by simp
next
  case (Cons k ks)
  obtain r s where b: "body k self = (r, s)"
    by (cases "body k self")
  with assms [of k self] have s: "s = self" by simp
  show ?case
    using Cons by (cases r) (simp_all add: b s)
qed

lemma check_attribute_unchanged:
  "snd (check_attribute allclose ne tmp_dict k self) = self"
  unfolding check_attribute_def
  by (simp split: option.splits val.splits sum.splits)

lemma check_loss_function_unchanged:
  "snd (check_loss_function allclose rand tmp_dict device ik self) = self"
  unfolding check_loss_function_def Let_def
  by (simp split: option.splits val.splits sum.splits)

lemma checks_unchanged:
  "snd (checks allclose ne rand tmp_dict device check_attributes check_loss_functions self) = self"
proof -
  obtain r1 s1 where c1: "for_each (check_attribute allclose ne tmp_dict) check_attributes self
      = (r1, s1)"
    by (cases "for_each (check_attribute allclose ne tmp_dict) check_attributes self")
  have s1: "s1 = self"
    using for_each_unchanged [of "check_attribute allclose ne tmp_dict" check_attributes self]
      check_attribute_unchanged c1 by simp
  have "snd (for_each (check_loss_function allclose rand tmp_dict device)
      (enumerate 0 check_loss_functions) self) = self"
    by (rule for_each_unchanged) (rule check_loss_function_unchanged)
  then show ?thesis
    by (cases r1) (simp_all add: checks_def c1 s1)
qed

lemma for_each_plain_setattr:
  "for_each (set_attribute plain_setattr) tmp_dict self
     = (Inr (), fold (\<lambda>kv s. s(fst kv \<mapsto> snd kv)) tmp_dict self)"
  by (induction tmp_dict arbitrary: self) (simp_all add: set_attribute_def plain_setattr_def)

text \<open>
  Claim C9: \<open>Synthesis.load\<close> is atomic when a check fails.  Whenever the loop over
  \<open>check_attributes\<close> or the loop over \<open>check_loss_functions\<close> raises (a comparison that
  fails, or an exception of Python or of the library inside the two loops), \<open>load\<close> raises
  that exception and every attribute of the object is as it was before the call: the
  attributes are assigned from the loaded dictionary only after every check has passed.
\<close>

theorem load_atomic:
  assumes "fst (checks allclose ne rand tmp_dict (device_of map_location tmp_dict)
             check_attributes check_loss_functions self) = Inl e"
  shows "load allclose ne rand setattr (Inr tmp_dict) map_location check_attributes
           check_loss_functions self = (Inl e, self)"
proof -
  obtain r s where c: "checks allclose ne rand tmp_dict (device_of map_location tmp_dict)
      check_attributes check_loss_functions self = (r, s)"
    by (cases "checks allclose ne rand tmp_dict (device_of map_location tmp_dict)
      check_attributes check_loss_functions self")
  have "s = self"
    using checks_unchanged [of allclose ne rand tmp_dict "device_of map_location tmp_dict"
        check_attributes check_loss_functions self] c by simp
  moreover have "r = Inl e"
    using assms c by simp
  ultimately show ?thesis
    by (simp add: load_def c)
qed

theorem load_atomic_witness:
  "fst (checks always_close exact_ne zeros_rand
          [(''lr'', Other ''0.5''), (''step'', Other ''3'')]
          (device_of None [(''lr'', Other ''0.5''), (''step'', Other ''3'')]) [''lr''] []
          [''lr'' \<mapsto> Other ''0.1''])
     = Inl Exception
   \<and> load always_close exact_ne zeros_rand plain_setattr
          (Inr [(''lr'', Other ''0.5''), (''step'', Other ''3'')]) None [''lr''] []
          [''lr'' \<mapsto> Other ''0.1'']
     = (Inl Exception, [''lr'' \<mapsto> Other ''0.1''])"
proof -
  have h: "fst (checks always_close exact_ne zeros_rand
          [(''lr'', Other ''0.5''), (''step'', Other ''3'')]
          (device_of None [(''lr'', Other ''0.5''), (''step'', Other ''3'')]) [''lr''] []
          [''lr'' \<mapsto> Other ''0.1''])
     = Inl Exception"
    by (simp add: checks_def check_attribute_def exact_ne_def)
  from h load_atomic [OF h] show ?thesis
    by (rule conjI)
qed

text \<open>An object that \<open>load\<close> has changed has passed every check.\<close>

lemma load_changes_after_checks:
  assumes "snd (load allclose ne rand setattr (Inr tmp_dict) map_location check_attributes
             check_loss_functions self) \<noteq> self"
  shows "fst (checks allclose ne rand tmp_dict (device_of map_location tmp_dict)
             check_attributes check_loss_functions self) = Inr ()"
proof (cases "fst (checks allclose ne rand tmp_dict (device_of map_location tmp_dict)
             check_attributes check_loss_functions self)")
  case (Inl e)
  have "load allclose ne rand setattr (Inr tmp_dict) map_location check_attributes
           check_loss_functions self = (Inl e, self)"
    using Inl checks_unchanged [of allclose ne rand tmp_dict "device_of map_location tmp_dict"
        check_attributes check_loss_functions self]
    by (cases "checks allclose ne rand tmp_dict (device_of map_location tmp_dict)
      check_attributes check_loss_functions self") (simp add: load_def)
  with assms show ?thesis by simp
next
  case (Inr u)
  then show ?thesis by simp
qed

text \<open>When \<open>torch.load\<close> raises, the object is unchanged as well.\<close>

lemma load_file_error:
  "load allclose ne rand setattr (Inl e) map_location check_attributes check_loss_functions self
     = (Inl e, self)"
  by (simp add: load_def)

text \<open>When every check passes and no \<open>setattr\<close> raises, the object holds the loaded items.\<close>

lemma load_assigns:
  assumes "fst (checks allclose ne rand tmp_dict (device_of map_location tmp_dict)
             check_attributes check_loss_functions self) = Inr u"
  shows "load allclose ne rand plain_setattr (Inr tmp_dict) map_location check_attributes
             check_loss_functions self
           = (Inr (), fold (\<lambda>kv s. s(fst kv \<mapsto> snd kv)) tmp_dict self)"
proof -
  obtain r s where c: "checks allclose ne rand tmp_dict (device_of map_location tmp_dict)
      check_attributes check_loss_functions self = (r, s)"
    by (cases "checks allclose ne rand tmp_dict (device_of map_location tmp_dict)
      check_attributes check_loss_functions self")
  have "s = self"
    using checks_unchanged [of allclose ne rand tmp_dict "device_of map_location tmp_dict"
        check_attributes check_loss_functions self] c by simp
  moreover have "r = Inr u"
    using assms c by simp
  ultimately show ?thesis
    by (simp add: load_def c for_each_plain_setattr)
qed

lemma load_success_example:
  "load always_close exact_ne zeros_rand plain_setattr
     (Inr [(''lr'', Other ''0.1''), (''step'', Other ''3'')]) None [''lr''] []
     [''lr'' \<mapsto> Other ''0.1'']
   = (Inr (), [''lr'' \<mapsto> Other ''0.1'', ''step'' \<mapsto> Other ''3''])"
  by (simp add: load_def checks_def check_attribute_def exact_ne_def set_attribute_def
      plain_setattr_def)

text \<open>
  The last loop is not atomic: when a \<open>setattr\<close> raises there, the items before it have
  been assigned.  Every check has passed then.
\<close>

lemma load_setattr_raises_example:
  "load always_close exact_ne zeros_rand step_is_read_only
     (Inr [(''lr'', Other ''0.1''), (''step'', Other ''3''), (''seed'', Other ''7'')])
     None [] [] Map.empty
   = (Inl AttributeError, [''lr'' \<mapsto> Other ''0.1''])"
  by (simp add: load_def checks_def set_attribute_def step_is_read_only_def)

end
